theory Spec2Isabelle
  imports Main "HOL-Library.Word"
begin

section \<open>The cursor, failures and result values of \<^verbatim>\<open>parsec.go\<close>\<close>

text \<open>
  \<^verbatim>\<open>type ParseState struct { Source string; Pos int; Line int }\<close>.
  A Go string is a sequence of bytes, here a \<^typ>\<open>char list\<close> (a HOL \<^typ>\<open>char\<close> is one
  byte). Go's \<^verbatim>\<open>int\<close> is a signed 64-bit integer (on a 64-bit platform).
  \<^verbatim>\<open>Line\<close> is a 64-bit word, read as a signed integer by \<open>sint\<close>: \<^verbatim>\<open>st.Line++\<close> wraps
  from \<open>2\<^sup>6\<^sup>3 - 1\<close> to \<open>- 2\<^sup>6\<^sup>3\<close>. \<^verbatim>\<open>Pos\<close> is a mathematical integer, kept signed
  since a caller may hand any cursor to a parser, also one with a negative position; the
  only arithmetic on it is \<^verbatim>\<open>st.Pos++\<close> under the guard \<^verbatim>\<open>st.Pos < len(st.Source)\<close>,
  which cannot overflow.
\<close>

record ParseState =
  Source :: string
  Pos :: int
  Line :: "64 word"

text \<open>
  \<^verbatim>\<open>fmt.Sprintf\<close> belongs to Go's standard library. A call is kept as its format
  string and its arguments, in order; the rendered text is a function of the two.
\<close>

datatype fmt_arg = ArgByte char | ArgString string

datatype reason = Sprintf string "fmt_arg list"

text \<open>\<^verbatim>\<open>type ParseErr struct { Reason string; Line int }\<close>\<close>

datatype ParseErr = ParseErr (Reason: reason) (ErrLine: "64 word")

text \<open>
  The values (\<^verbatim>\<open>interface{}\<close>) that the library produces: \<^verbatim>\<open>nil\<close>, a byte, a
  string, or a slice \<^verbatim>\<open>[]interface{}\<close> of such values.
\<close>

datatype val = VNil | VByte char | VString string | VList "val list"

text \<open>
  \<^verbatim>\<open>type Parser func(*ParseState) (interface{}, error)\<close>. The cursor is passed by
  pointer and mutated, so a parser maps the cursor before the call to the returned pair
  (\<open>Inl\<close> a non-nil error, \<open>Inr\<close> the value returned with a nil error) and the cursor
  after the call. \<open>None\<close> stands for a call that does not return: a run-time panic
  (index out of range, failed type assertion) or unbounded recursion.
\<close>

type_synonym outcome = "(ParseErr + val) \<times> ParseState"

type_synonym Parser = "ParseState \<Rightarrow> outcome option"

definition newline :: char where
  "newline = CHR 0x0A"

definition Parse :: "Parser \<Rightarrow> string \<Rightarrow> (ParseErr + val) option" where
  "Parse p source = map_option fst (p \<lparr>Source = source, Pos = 0, Line = 1\<rparr>)"

text \<open>
  \<^verbatim>\<open>func (st *ParseState) next(pred func(byte) bool) (byte, bool)\<close>.
  Indexing \<^verbatim>\<open>st.Source[st.Pos]\<close> with a negative position panics.
\<close>

definition st_next :: "(char \<Rightarrow> bool) \<Rightarrow> ParseState \<Rightarrow> ((char \<times> bool) \<times> ParseState) option" where
  "st_next pred st =
     (if Pos st < int (length (Source st)) then
        (if Pos st < 0 then None
         else let c = Source st ! nat (Pos st) in
           if pred c = False then Some ((c, False), st)
           else
             let st1 = st\<lparr>Pos := Pos st + 1\<rparr>;
                 st2 = (if c = newline then st1\<lparr>Line := Line st1 + 1\<rparr> else st1)
             in Some ((c, True), st2))
      else Some ((CHR 0x00, False), st))"

text \<open>
  \<^verbatim>\<open>func (st *ParseState) trap(format string, args ...interface{}) ParseErr\<close>.
  In the format strings below the closing apostrophe of a message is written
  \<open>[CHR 0x27]\<close>, since it cannot stand before the end of a string literal.
\<close>

definition st_trap :: "ParseState \<Rightarrow> string \<Rightarrow> fmt_arg list \<Rightarrow> ParseErr" where
  "st_trap st format args = ParseErr (Sprintf format args) (Line st)"

section \<open>Control combinators\<close>

definition Bind :: "Parser \<Rightarrow> (val \<Rightarrow> Parser) \<Rightarrow> Parser" where
  "Bind p f st =
     (case p st of
        None \<Rightarrow> None
      | Some (Inl err, st') \<Rightarrow> Some (Inl err, st')
      | Some (Inr x, st') \<Rightarrow> f x st')"

definition Then :: "Parser \<Rightarrow> Parser \<Rightarrow> Parser" where
  "Then p1 p2 st =
     (case p1 st of
        None \<Rightarrow> None
      | Some (Inl err, st') \<Rightarrow> Some (Inl err, st')
      | Some (Inr x, st') \<Rightarrow> p2 st')"

definition Return :: "val \<Rightarrow> Parser" where
  "Return x st = Some (Inr x, st)"

definition Fail :: "string \<Rightarrow> Parser" where
  "Fail msg st = Some (Inl (st_trap st msg []), st)"

definition Either :: "Parser \<Rightarrow> Parser \<Rightarrow> Parser" where
  "Either p1 p2 st =
     (let oldPos = Pos st in
      case p1 st of
        None \<Rightarrow> None
      | Some (Inr x, st') \<Rightarrow> Some (Inr x, st')
      | Some (Inl err, st') \<Rightarrow>
          if Pos st' = oldPos then p2 st' else Some (Inl err, st'))"

definition Or :: "Parser \<Rightarrow> Parser \<Rightarrow> Parser" where
  "Or p p2 = Either p p2"

definition Try :: "Parser \<Rightarrow> Parser" where
  "Try p st =
     (let oldPos = Pos st in
      case p st of
        None \<Rightarrow> None
      | Some (Inr x, st') \<Rightarrow> Some (Inr x, st')
      | Some (Inl err, st') \<Rightarrow> Some (Inl err, st'\<lparr>Pos := oldPos\<rparr>))"

section \<open>Primitive matchers\<close>

definition AnyChar :: Parser where
  "AnyChar st =
     (case st_next (\<lambda>x. True) st of
        None \<Rightarrow> None
      | Some ((c, ok), st') \<Rightarrow>
          if ok then Some (Inr (VByte c), st')
          else Some (Inl (st_trap st' ''Unexpected end of file'' []), st'))"

definition Eof :: Parser where
  "Eof st =
     (case st_next (\<lambda>x. True) st of
        None \<Rightarrow> None
      | Some ((c, ok), st') \<Rightarrow>
          if ok then Some (Inl (st_trap st' (''Expected end of file but got '%c'' @ [CHR 0x27]) [ArgByte c]), st')
          else Some (Inr VNil, st'))"

definition Char_p :: "char \<Rightarrow> Parser" where
  "Char_p c st =
     (case st_next (\<lambda>b. b = c) st of
        None \<Rightarrow> None
      | Some ((x, ok), st') \<Rightarrow>
          if ok then Some (Inr (VByte x), st')
          else Some (Inl (st_trap st' (''Expected '%c'' @ [CHR 0x27]) [ArgByte c]), st'))"

definition OneOf :: "string \<Rightarrow> Parser" where
  "OneOf set_p st =
     (case st_next (\<lambda>c. c \<in> set set_p) st of
        None \<Rightarrow> None
      | Some ((x, ok), st') \<Rightarrow>
          if ok then Some (Inr (VByte x), st')
          else Some (Inl (st_trap st' (''Expected one of '%s' but got '%c'' @ [CHR 0x27])
                            [ArgString set_p, ArgByte x]), st'))"

definition NoneOf :: "string \<Rightarrow> Parser" where
  "NoneOf set_p st =
     (case st_next (\<lambda>c. c \<notin> set set_p) st of
        None \<Rightarrow> None
      | Some ((x, ok), st') \<Rightarrow>
          if ok then Some (Inr (VByte x), st')
          else Some (Inl (st_trap st' (''Unexpected '%c'' @ [CHR 0x27]) [ArgByte x]), st'))"

text \<open>
  \<^verbatim>\<open>String\<close>: the \<^verbatim>\<open>for _, c := range []byte(s)\<close> loop, as a recursion over the bytes
  of \<open>s\<close> still to be matched.
\<close>

fun String_loop :: "string \<Rightarrow> int \<Rightarrow> string \<Rightarrow> Parser" where
  "String_loop s oldPos [] st = Some (Inr (VString s), st)"
| "String_loop s oldPos (c # cs) st =
     (case st_next (\<lambda>b. b = c) st of
        None \<Rightarrow> None
      | Some ((x, ok), st') \<Rightarrow>
          if ok = False then
            (let st'' = st'\<lparr>Pos := oldPos\<rparr>
             in Some (Inl (st_trap st'' (''Expected '%s'' @ [CHR 0x27]) [ArgString s]), st''))
          else String_loop s oldPos cs st')"

definition String :: "string \<Rightarrow> Parser" where
  "String s st = (let oldPos = Pos st in String_loop s oldPos s st)"

section \<open>Repetition and structural combinators\<close>

text \<open>A run-time panic, as a parser that does not return.\<close>

definition panic :: Parser where
  "panic st = None"

text \<open>
  \<^verbatim>\<open>ToString\<close>: the type assertions \<^verbatim>\<open>x.([]interface{})\<close> and \<^verbatim>\<open>c.(byte)\<close> panic on
  a value of another type.
\<close>

fun bytes_of :: "val list \<Rightarrow> string option" where
  "bytes_of [] = Some []"
| "bytes_of (VByte c # xs) = map_option ((#) c) (bytes_of xs)"
| "bytes_of (_ # xs) = None"

definition ToString :: "Parser \<Rightarrow> Parser" where
  "ToString p =
     Bind p (\<lambda>x. case x of
        VList xs \<Rightarrow> (case bytes_of xs of None \<Rightarrow> panic | Some bs \<Rightarrow> Return (VString bs))
      | _ \<Rightarrow> panic)"

text \<open>\<^verbatim>\<open>appendx\<close>: the type assertion \<^verbatim>\<open>xs.([]interface{})\<close> panics unless \<open>xs\<close> is a slice.\<close>

definition appendx :: "val \<Rightarrow> val \<Rightarrow> val option" where
  "appendx x xs = (case xs of VList ys \<Rightarrow> Some (VList ([x] @ ys)) | _ \<Rightarrow> None)"

definition Return_appendx :: "val \<Rightarrow> val \<Rightarrow> Parser" where
  "Return_appendx x xs = (case appendx x xs of None \<Rightarrow> panic | Some v \<Rightarrow> Return v)"

text \<open>
  \<^verbatim>\<open>Many\<close> and \<^verbatim>\<open>Many1\<close> call each other, and the recursion runs for as long as
  \<open>p\<close> succeeds: it need not end (a \<open>p\<close> that succeeds without consuming recurses
  forever). \<open>Many\<close> is therefore the least fixed point in the option domain, with the
  body of \<^verbatim>\<open>Many1\<close> in place of its call; \<open>Many1\<close> is then defined from \<open>Many\<close>
  as in the source, and \<open>Many_Many1\<close> below gives back the source's equation for
  \<^verbatim>\<open>Many\<close>. The two lemmas that follow say that \<open>Bind\<close> and \<open>Either\<close> are monotone
  in the parsers they run, which the fixed-point construction asks for.
\<close>

lemma Bind_mono [partial_function_mono]:
  fixes P :: "('a \<Rightarrow> 'b option) \<Rightarrow> Parser" and F :: "('a \<Rightarrow> 'b option) \<Rightarrow> val \<Rightarrow> Parser"
  assumes "\<And>st. mono_option (\<lambda>f. P f st)" and "\<And>x st. mono_option (\<lambda>f. F f x st)"
  shows "mono_option (\<lambda>f. Bind (P f) (F f) st)"
proof (rule monotoneI)
  fix f g :: "'a \<Rightarrow> 'b option"
  assume fg: "fun_ord option_ord f g"
  have first: "option_ord (P f st) (P g st)"
    by (rule monotoneD [OF assms(1)]) (rule fg)
  have rest: "\<And>x s. option_ord (F f x s) (F g x s)"
    by (rule monotoneD [OF assms(2)]) (rule fg)
  show "option_ord (Bind (P f) (F f) st) (Bind (P g) (F g) st)"
  proof (cases "P f st")
    case None
    then show ?thesis by (simp add: Bind_def flat_ord_def)
  next
    case (Some y)
    with first have "P g st = Some y" by (simp add: flat_ord_def)
    with Some rest show ?thesis
      by (cases y; cases "fst y") (simp_all add: Bind_def flat_ord_def)
  qed
qed

lemma Either_mono [partial_function_mono]:
  fixes A :: "('a \<Rightarrow> 'b option) \<Rightarrow> Parser" and B :: "('a \<Rightarrow> 'b option) \<Rightarrow> Parser"
  assumes "\<And>st. mono_option (\<lambda>f. A f st)" and "\<And>st. mono_option (\<lambda>f. B f st)"
  shows "mono_option (\<lambda>f. Either (A f) (B f) st)"
proof (rule monotoneI)
  fix f g :: "'a \<Rightarrow> 'b option"
  assume fg: "fun_ord option_ord f g"
  have first: "option_ord (A f st) (A g st)"
    by (rule monotoneD [OF assms(1)]) (rule fg)
  have second: "\<And>s. option_ord (B f s) (B g s)"
    by (rule monotoneD [OF assms(2)]) (rule fg)
  show "option_ord (Either (A f) (B f) st) (Either (A g) (B g) st)"
  proof (cases "A f st")
    case None
    then show ?thesis by (simp add: Either_def flat_ord_def)
  next
    case (Some y)
    with first have "A g st = Some y" by (simp add: flat_ord_def)
    with Some second show ?thesis
      by (cases y; cases "fst y") (simp_all add: Either_def flat_ord_def)
  qed
qed

partial_function (option) Many :: "Parser \<Rightarrow> Parser" where
  "Many p st =
     Either (Bind p (\<lambda>x. Bind (Many p) (\<lambda>xs. Return_appendx x xs))) (Return (VList [])) st"

definition Many1 :: "Parser \<Rightarrow> Parser" where
  "Many1 p = Bind p (\<lambda>x. Bind (Many p) (\<lambda>xs. Return_appendx x xs))"

partial_function (option) ManyTill :: "Parser \<Rightarrow> Parser \<Rightarrow> Parser" where
  "ManyTill p end_p st =
     Either (Then (Try end_p) (Return (VList [])))
       (Bind p (\<lambda>x. Bind (ManyTill p end_p) (\<lambda>xs. Return_appendx x xs))) st"

definition Skip :: "Parser \<Rightarrow> Parser" where
  "Skip p = Or (Then p (Return VNil)) (Return VNil)"

definition SkipMany :: "Parser \<Rightarrow> Parser" where
  "SkipMany p = Skip (Many p)"

definition Between :: "Parser \<Rightarrow> Parser \<Rightarrow> Parser \<Rightarrow> Parser" where
  "Between p start end_p = (let keep = (\<lambda>x. Then end_p (Return x)) in Then start (Bind p keep))"

definition SepBy1 :: "Parser \<Rightarrow> Parser \<Rightarrow> Parser" where
  "SepBy1 p sep = Bind p (\<lambda>x. Bind (Many (Then sep p)) (\<lambda>xs. Return_appendx x xs))"

definition SepBy :: "Parser \<Rightarrow> Parser \<Rightarrow> Parser" where
  "SepBy p sep = Or (SepBy1 p sep) (Return (VList []))"

section \<open>The derived character classes\<close>

definition Lowercase :: Parser where
  "Lowercase = OneOf ''abcdefghijklmnopqrstuvwxyz''"

definition Uppercase :: Parser where
  "Uppercase = OneOf ''ABCDEFGHIJKLMNOPQRSTUVWXYZ''"

definition Letter :: Parser where
  "Letter = Either Lowercase Uppercase"

definition Letters :: Parser where
  "Letters = Many1 Letter"

definition Digit :: Parser where
  "Digit = OneOf ''0123456789''"

definition Digits :: Parser where
  "Digits = Many1 Digit"

definition AlphaNum :: Parser where
  "AlphaNum = Either Letter Digit"

definition AlphaNums :: Parser where
  "AlphaNums = Many1 AlphaNum"

definition HexDigit :: Parser where
  "HexDigit = OneOf ''0123456789acdefABCDEF''"

definition HexDigits :: Parser where
  "HexDigits = Many1 HexDigit"

definition Punctuation :: Parser where
  "Punctuation = OneOf (''!@#$%^&*()-=+[]{}'' @ [CHR 0x5C] @ ''|;:'' @ [CHR 0x27, CHR 0x22] @ '',./<>?~`'')"

definition Space :: Parser where
  "Space = OneOf [CHR '' '', CHR 0x09]"

definition Spaces :: Parser where
  "Spaces = Skip Space"

definition Newline :: Parser where
  "Newline = OneOf [CHR 0x0D, newline]"

definition Eol :: Parser where
  "Eol = Either Eof Newline"

section \<open>The example of \<^verbatim>\<open>README.md\<close>\<close>

text \<open>
  \<^verbatim>\<open>cell := Many(NoneOf([]byte(",\n"))).ToString()\<close>,
  \<^verbatim>\<open>line := cell.SepBy(Char(','))\<close>, \<^verbatim>\<open>csv := line.SepBy(Char('\n'))\<close>.
\<close>

definition cell :: Parser where
  "cell = ToString (Many (NoneOf ('','' @ [newline])))"

definition line :: Parser where
  "line = SepBy cell (Char_p CHR '','')"

definition csv :: Parser where
  "csv = SepBy line (Char_p newline)"

section \<open>Parsers built from the library\<close>

text \<open>
  The parsers that can be written with the exported primitives and combinators of
  \<^verbatim>\<open>parsec.go\<close> alone: one rule for each of them. The function handed to \<open>Bind\<close> must
  itself produce such parsers.
\<close>

inductive library_parser :: "Parser \<Rightarrow> bool" where
  lib_AnyChar: "library_parser AnyChar"
| lib_Eof: "library_parser Eof"
| lib_Char: "library_parser (Char_p c)"
| lib_OneOf: "library_parser (OneOf set_p)"
| lib_NoneOf: "library_parser (NoneOf set_p)"
| lib_String: "library_parser (String s)"
| lib_Return: "library_parser (Return x)"
| lib_Fail: "library_parser (Fail msg)"
| lib_Bind: "library_parser p \<Longrightarrow> (\<And>x. library_parser (f x)) \<Longrightarrow> library_parser (Bind p f)"
| lib_Then: "library_parser p1 \<Longrightarrow> library_parser p2 \<Longrightarrow> library_parser (Then p1 p2)"
| lib_Either: "library_parser p1 \<Longrightarrow> library_parser p2 \<Longrightarrow> library_parser (Either p1 p2)"
| lib_Or: "library_parser p1 \<Longrightarrow> library_parser p2 \<Longrightarrow> library_parser (Or p1 p2)"
| lib_Try: "library_parser p \<Longrightarrow> library_parser (Try p)"
| lib_ToString: "library_parser p \<Longrightarrow> library_parser (ToString p)"
| lib_Many1: "library_parser p \<Longrightarrow> library_parser (Many1 p)"
| lib_Many: "library_parser p \<Longrightarrow> library_parser (Many p)"
| lib_ManyTill: "library_parser p \<Longrightarrow> library_parser end_p \<Longrightarrow> library_parser (ManyTill p end_p)"
| lib_Skip: "library_parser p \<Longrightarrow> library_parser (Skip p)"
| lib_SkipMany: "library_parser p \<Longrightarrow> library_parser (SkipMany p)"
| lib_Between: "library_parser p \<Longrightarrow> library_parser start \<Longrightarrow> library_parser end_p \<Longrightarrow>
     library_parser (Between p start end_p)"
| lib_SepBy1: "library_parser p \<Longrightarrow> library_parser sep \<Longrightarrow> library_parser (SepBy1 p sep)"
| lib_SepBy: "library_parser p \<Longrightarrow> library_parser sep \<Longrightarrow> library_parser (SepBy p sep)"

text \<open>
  A cursor is within its source when \<open>0 \<le> Pos \<le> len(Source)\<close>. A cursor \<open>st'\<close> follows
  \<open>st\<close> when it is within the same source. A parser is preserving when every run that
  returns, from a cursor within its source, returns a cursor that follows it.
\<close>

definition in_bounds :: "ParseState \<Rightarrow> bool" where
  "in_bounds st \<longleftrightarrow> 0 \<le> Pos st \<and> Pos st \<le> int (length (Source st))"

definition follows :: "ParseState \<Rightarrow> ParseState \<Rightarrow> bool" where
  "follows st st' \<longleftrightarrow> in_bounds st' \<and> Source st' = Source st"

definition preserving :: "Parser \<Rightarrow> bool" where
  "preserving p \<longleftrightarrow> (\<forall>st r st'. in_bounds st \<longrightarrow> p st = Some (r, st') \<longrightarrow> follows st st')"

section \<open>Counting the increments of the line counter\<close>

text \<open>
  \<open>matched s st\<close> is the number of leading bytes of \<open>s\<close> that the source holds at the
  position of \<open>st\<close>: the bytes that \<open>String s\<close> reads before it succeeds or meets its
  first mismatch. \<open>newlines_between st st'\<close> is the number of newline bytes of the source
  from the position of \<open>st\<close> up to that of \<open>st'\<close>.
\<close>

definition matched :: "string \<Rightarrow> ParseState \<Rightarrow> nat" where
  "matched s st =
     length (takeWhile (\<lambda>(a, b). a = b) (zip s (drop (nat (Pos st)) (Source st))))"

definition newlines_between :: "ParseState \<Rightarrow> ParseState \<Rightarrow> nat" where
  "newlines_between st st' =
     count_list (take (nat (Pos st' - Pos st)) (drop (nat (Pos st)) (Source st))) newline"

text \<open>
  \<open>line_count p st y n\<close>: the run of \<open>p\<close> from the cursor \<open>st\<close> returns \<open>y\<close> and executes
  \<^verbatim>\<open>st.Line++\<close> \<open>n\<close> times, that is, reads \<open>n\<close> newline bytes, those read before a
  backtrack included. There is a rule for each way a primitive, \<open>Return\<close>, \<open>Fail\<close>,
  \<open>Bind\<close>, \<open>Either\<close> and \<open>Try\<close> return; the other combinators are compositions of
  these by their definitions. \<open>covers q p\<close>: every run of \<open>q\<close> that returns is counted as
  a run of \<open>p\<close>.
\<close>

inductive line_count :: "Parser \<Rightarrow> ParseState \<Rightarrow> outcome \<Rightarrow> nat \<Rightarrow> bool" where
  lc_AnyChar: "AnyChar st = Some (r, st') \<Longrightarrow> line_count AnyChar st (r, st') (newlines_between st st')"
| lc_Eof: "Eof st = Some (r, st') \<Longrightarrow> line_count Eof st (r, st') (newlines_between st st')"
| lc_Char: "Char_p c st = Some (r, st') \<Longrightarrow>
     line_count (Char_p c) st (r, st') (newlines_between st st')"
| lc_OneOf: "OneOf set_p st = Some (r, st') \<Longrightarrow>
     line_count (OneOf set_p) st (r, st') (newlines_between st st')"
| lc_NoneOf: "NoneOf set_p st = Some (r, st') \<Longrightarrow>
     line_count (NoneOf set_p) st (r, st') (newlines_between st st')"
| lc_String_ok: "String s st = Some (Inr v, st') \<Longrightarrow>
     line_count (String s) st (Inr v, st') (count_list s newline)"
| lc_String_fail: "String s st = Some (Inl e, st') \<Longrightarrow>
     line_count (String s) st (Inl e, st') (count_list (take (matched s st) s) newline)"
| lc_Return: "line_count (Return x) st (Inr x, st) 0"
| lc_Fail: "line_count (Fail msg) st (Inl (st_trap st msg []), st) 0"
| lc_Bind_fail: "line_count p st (Inl e, s1) n \<Longrightarrow> line_count (Bind p f) st (Inl e, s1) n"
| lc_Bind: "line_count p st (Inr x, s1) n \<Longrightarrow> line_count (f x) s1 y m \<Longrightarrow>
     line_count (Bind p f) st y (n + m)"
| lc_Either_ok: "line_count p1 st (Inr x, s1) n \<Longrightarrow> line_count (Either p1 p2) st (Inr x, s1) n"
| lc_Either_retry: "line_count p1 st (Inl e, s1) n \<Longrightarrow> Pos s1 = Pos st \<Longrightarrow>
     line_count p2 s1 y m \<Longrightarrow> line_count (Either p1 p2) st y (n + m)"
| lc_Either_fail: "line_count p1 st (Inl e, s1) n \<Longrightarrow> Pos s1 \<noteq> Pos st \<Longrightarrow>
     line_count (Either p1 p2) st (Inl e, s1) n"
| lc_Try_ok: "line_count p st (Inr x, s1) n \<Longrightarrow> line_count (Try p) st (Inr x, s1) n"
| lc_Try_fail: "line_count p st (Inl e, s1) n \<Longrightarrow>
     line_count (Try p) st (Inl e, s1\<lparr>Pos := Pos st\<rparr>) n"

definition covers :: "Parser \<Rightarrow> Parser \<Rightarrow> bool" where
  "covers q p \<longleftrightarrow> (\<forall>st y. q st = Some y \<longrightarrow> (\<exists>n. line_count p st y n))"

section \<open>Evaluation\<close>

text \<open>The recursion equations of the two fixed points, as code equations.\<close>

declare Many.simps [code]

declare ManyTill.simps [code]

section \<open>The cursor primitive\<close>

lemma st_next_in_range:
  assumes "0 \<le> Pos st" and "Pos st < int (length (Source st))"
  shows "st_next pred st =
    (if pred (Source st ! nat (Pos st))
     then Some ((Source st ! nat (Pos st), True),
                st\<lparr>Pos := Pos st + 1,
                   Line := (if Source st ! nat (Pos st) = newline then Line st + 1 else Line st)\<rparr>)
     else Some ((Source st ! nat (Pos st), False), st))"
  using assms by (simp add: st_next_def Let_def)

lemma st_next_at_end:
  assumes "int (length (Source st)) \<le> Pos st"
  shows "st_next pred st = Some ((CHR 0x00, False), st)"
  using assms by (simp add: st_next_def)

lemma st_next_result:
  assumes "st_next pred st = Some ((c, ok), st')"
  shows "(ok = False \<and> st' = st) \<or>
         (ok = True \<and> 0 \<le> Pos st \<and> Pos st < int (length (Source st)) \<and>
          c = Source st ! nat (Pos st) \<and> pred c \<and>
          st' = st\<lparr>Pos := Pos st + 1, Line := (if c = newline then Line st + 1 else Line st)\<rparr>)"
  using assms by (auto simp: st_next_def Let_def split: if_splits)

lemma st_next_returns:
  assumes "0 \<le> Pos st"
  shows "\<exists>c ok st'. st_next pred st = Some ((c, ok), st')"
  using assms by (auto simp: st_next_def Let_def)

lemma Eof_byte:
  assumes "0 \<le> Pos st" and "Pos st < int (length (Source st))"
  shows "Eof st =
    Some (Inl (ParseErr (Sprintf (''Expected end of file but got '%c'' @ [CHR 0x27])
                           [ArgByte (Source st ! nat (Pos st))])
                 (if Source st ! nat (Pos st) = newline then Line st + 1 else Line st)),
          st\<lparr>Pos := Pos st + 1,
             Line := (if Source st ! nat (Pos st) = newline then Line st + 1 else Line st)\<rparr>)"
  using assms by (simp add: Eof_def st_next_in_range st_trap_def)

lemma Eof_at_end:
  assumes "int (length (Source st)) \<le> Pos st"
  shows "Eof st = Some (Inr VNil, st)"
  using assms by (simp add: Eof_def st_next_at_end)

section \<open>Choice\<close>

text \<open>
  C1. Whatever the parsers \<open>p1\<close>, \<open>p2\<close> and the cursor: when \<open>p1\<close> succeeds,
  \<open>Either p1 p2\<close> returns the result of \<open>p1\<close>; when \<open>p1\<close> fails and leaves the
  position where it was, \<open>Either p1 p2\<close> returns what \<open>p2\<close> returns from the cursor
  that \<open>p1\<close> left, at that same position; when \<open>p1\<close> fails with the position advanced,
  \<open>Either p1 q\<close> returns the failure of \<open>p1\<close> for every second parser \<open>q\<close>, also one
  that would not return: the second parser is not run.
\<close>

theorem Either_choice:
  "(p1 st = Some (Inr x, st') \<longrightarrow> Either p1 p2 st = Some (Inr x, st')) \<and>
   (p1 st = Some (Inl err, st') \<and> Pos st' = Pos st \<longrightarrow> Either p1 p2 st = p2 st') \<and>
   (p1 st = Some (Inl err, st') \<and> Pos st < Pos st' \<longrightarrow>
      (\<forall>q. Either p1 q st = Some (Inl err, st')))"
  by (simp add: Either_def)

theorem Either_choice_witness:
  "Either (Char_p CHR ''a'') (Char_p CHR ''b'') \<lparr>Source = ''a'', Pos = 0, Line = 1\<rparr>
     = Some (Inr (VByte CHR ''a''), \<lparr>Source = ''a'', Pos = 1, Line = 1\<rparr>) \<and>
   Either (Char_p CHR ''a'') (Char_p CHR ''b'') \<lparr>Source = ''b'', Pos = 0, Line = 1\<rparr>
     = Char_p CHR ''b'' \<lparr>Source = ''b'', Pos = 0, Line = 1\<rparr> \<and>
   Either (Then (Char_p CHR ''a'') (Char_p CHR ''b'')) panic \<lparr>Source = ''ac'', Pos = 0, Line = 1\<rparr>
     = Some (Inl (ParseErr (Sprintf (''Expected '%c'' @ [CHR 0x27]) [ArgByte CHR ''b'']) 1),
             \<lparr>Source = ''ac'', Pos = 1, Line = 1\<rparr>)"
proof -
  let ?a = "Char_p CHR ''a''" and ?b = "Char_p CHR ''b''"
  let ?e = "ParseErr (Sprintf (''Expected '%c'' @ [CHR 0x27]) [ArgByte CHR ''b'']) 1"
  have h1: "?a \<lparr>Source = ''a'', Pos = 0, Line = 1\<rparr>
      = Some (Inr (VByte CHR ''a''), \<lparr>Source = ''a'', Pos = 1, Line = 1\<rparr>)"
    by code_simp
  have h2: "?a \<lparr>Source = ''b'', Pos = 0, Line = 1\<rparr>
      = Some (Inl (ParseErr (Sprintf (''Expected '%c'' @ [CHR 0x27]) [ArgByte CHR ''a'']) 1),
              \<lparr>Source = ''b'', Pos = 0, Line = 1\<rparr>)
      \<and> Pos \<lparr>Source = ''b'', Pos = 0, Line = 1\<rparr> = Pos \<lparr>Source = ''b'', Pos = 0, Line = 1\<rparr>"
    by code_simp
  have h3: "Then ?a ?b \<lparr>Source = ''ac'', Pos = 0, Line = 1\<rparr>
      = Some (Inl ?e, \<lparr>Source = ''ac'', Pos = 1, Line = 1\<rparr>)
      \<and> Pos \<lparr>Source = ''ac'', Pos = 0, Line = 1\<rparr> < Pos \<lparr>Source = ''ac'', Pos = 1, Line = 1\<rparr>"
    by code_simp
  from h1 h2 h3
    Either_choice [where ?p1.0 = ?a and ?p2.0 = ?b and st = "\<lparr>Source = ''a'', Pos = 0, Line = 1\<rparr>"]
    Either_choice [where ?p1.0 = ?a and ?p2.0 = ?b and st = "\<lparr>Source = ''b'', Pos = 0, Line = 1\<rparr>"]
    Either_choice [where ?p1.0 = "Then ?a ?b" and st = "\<lparr>Source = ''ac'', Pos = 0, Line = 1\<rparr>"]
  show ?thesis by blast
qed

section \<open>End of input\<close>

text \<open>
  C3. On a cursor with a byte remaining, \<open>Eof\<close> fails, its message carries the byte it
  found, and the cursor it leaves has the position advanced by one and the line counter
  incremented when that byte is a newline (the failure's line is the incremented one). With
  no byte remaining \<open>Eof\<close> succeeds with \<^verbatim>\<open>nil\<close> and leaves the cursor as it was.
\<close>

theorem Eof_consumes:
  "(0 \<le> Pos st \<and> Pos st < int (length (Source st)) \<longrightarrow>
      Eof st =
        Some (Inl (ParseErr (Sprintf (''Expected end of file but got '%c'' @ [CHR 0x27])
                               [ArgByte (Source st ! nat (Pos st))])
                     (if Source st ! nat (Pos st) = newline then Line st + 1 else Line st)),
              st\<lparr>Pos := Pos st + 1,
                 Line := (if Source st ! nat (Pos st) = newline then Line st + 1 else Line st)\<rparr>)) \<and>
   (int (length (Source st)) \<le> Pos st \<longrightarrow> Eof st = Some (Inr VNil, st))"
  by (simp add: Eof_byte Eof_at_end)

theorem Eof_consumes_witness:
  "Eof \<lparr>Source = [CHR ''a'', newline], Pos = 1, Line = 1\<rparr>
     = Some (Inl (ParseErr (Sprintf (''Expected end of file but got '%c'' @ [CHR 0x27])
                              [ArgByte newline]) 2),
             \<lparr>Source = [CHR ''a'', newline], Pos = 2, Line = 2\<rparr>) \<and>
   Eof \<lparr>Source = [CHR ''a'', newline], Pos = 2, Line = 2\<rparr>
     = Some (Inr VNil, \<lparr>Source = [CHR ''a'', newline], Pos = 2, Line = 2\<rparr>)"
  using Eof_consumes [where st = "\<lparr>Source = [CHR ''a'', newline], Pos = 1, Line = 1\<rparr>"]
    Eof_consumes [where st = "\<lparr>Source = [CHR ''a'', newline], Pos = 2, Line = 2\<rparr>"]
  by simp

section \<open>Full backtrack\<close>

text \<open>
  C4. When \<open>p\<close> succeeds, \<open>Try p\<close> returns the same value and the same cursor. When \<open>p\<close>
  fails, \<open>Try p\<close> returns the failure of \<open>p\<close> and the cursor that \<open>p\<close> left with the
  position set back to the one before \<open>p\<close> started, so that \<open>Either (Try p) p2\<close> goes on to
  run \<open>p2\<close> from there, whatever \<open>p\<close> consumed before it failed.
\<close>

theorem Try_backtrack:
  "(p st = Some (Inr x, st') \<longrightarrow> Try p st = Some (Inr x, st')) \<and>
   (p st = Some (Inl err, st') \<longrightarrow>
      Try p st = Some (Inl err, st'\<lparr>Pos := Pos st\<rparr>) \<and>
      Pos (st'\<lparr>Pos := Pos st\<rparr>) = Pos st \<and>
      Either (Try p) p2 st = p2 (st'\<lparr>Pos := Pos st\<rparr>))"
  by (simp add: Try_def Either_def)

theorem Try_backtrack_witness:
  "Try (Char_p CHR ''a'') \<lparr>Source = ''ab'', Pos = 0, Line = 1\<rparr>
     = Some (Inr (VByte CHR ''a''), \<lparr>Source = ''ab'', Pos = 1, Line = 1\<rparr>) \<and>
   Try (Then (Char_p CHR ''a'') (Char_p CHR ''b'')) \<lparr>Source = ''ac'', Pos = 0, Line = 1\<rparr>
     = Some (Inl (ParseErr (Sprintf (''Expected '%c'' @ [CHR 0x27]) [ArgByte CHR ''b'']) 1),
             \<lparr>Source = ''ac'', Pos = 0, Line = 1\<rparr>) \<and>
   Either (Try (Then (Char_p CHR ''a'') (Char_p CHR ''b''))) (Char_p CHR ''a'')
       \<lparr>Source = ''ac'', Pos = 0, Line = 1\<rparr>
     = Some (Inr (VByte CHR ''a''), \<lparr>Source = ''ac'', Pos = 1, Line = 1\<rparr>)"
proof -
  let ?a = "Char_p CHR ''a''" and ?ab = "Then (Char_p CHR ''a'') (Char_p CHR ''b'')"
  have h1: "?a \<lparr>Source = ''ab'', Pos = 0, Line = 1\<rparr>
      = Some (Inr (VByte CHR ''a''), \<lparr>Source = ''ab'', Pos = 1, Line = 1\<rparr>)"
    by code_simp
  have h2: "?ab \<lparr>Source = ''ac'', Pos = 0, Line = 1\<rparr>
      = Some (Inl (ParseErr (Sprintf (''Expected '%c'' @ [CHR 0x27]) [ArgByte CHR ''b'']) 1),
              \<lparr>Source = ''ac'', Pos = 1, Line = 1\<rparr>)"
    by code_simp
  have h3: "?a \<lparr>Source = ''ac'', Pos = 0, Line = 1\<rparr>
      = Some (Inr (VByte CHR ''a''), \<lparr>Source = ''ac'', Pos = 1, Line = 1\<rparr>)"
    by code_simp
  from h1 h2 h3
    Try_backtrack [where p = ?a and st = "\<lparr>Source = ''ab'', Pos = 0, Line = 1\<rparr>"]
    Try_backtrack [where p = ?ab and ?p2.0 = ?a and st = "\<lparr>Source = ''ac'', Pos = 0, Line = 1\<rparr>"]
  show ?thesis by simp
qed

section \<open>End of line\<close>

text \<open>
  C5. On a cursor with a byte remaining, whatever the byte, \<open>Eol = Either Eof Newline\<close>
  fails with the failure of \<open>Eof\<close> and leaves the position advanced by one; the second
  parser of that choice is not run (any parser in its place gives the same outcome). So a
  success of \<open>Eol\<close> happens only with no byte remaining.
\<close>

theorem Eol_consumes:
  "(0 \<le> Pos st \<and> Pos st < int (length (Source st)) \<longrightarrow>
      (\<forall>q. Either Eof q st = Eof st) \<and>
      Eol st =
        Some (Inl (ParseErr (Sprintf (''Expected end of file but got '%c'' @ [CHR 0x27])
                               [ArgByte (Source st ! nat (Pos st))])
                     (if Source st ! nat (Pos st) = newline then Line st + 1 else Line st)),
              st\<lparr>Pos := Pos st + 1,
                 Line := (if Source st ! nat (Pos st) = newline then Line st + 1 else Line st)\<rparr>)) \<and>
   (Eol st = Some (Inr v, st') \<longrightarrow> int (length (Source st)) \<le> Pos st \<and> v = VNil \<and> st' = st)"
proof (intro conjI impI)
  assume "0 \<le> Pos st \<and> Pos st < int (length (Source st))"
  then have r: "0 \<le> Pos st" "Pos st < int (length (Source st))" by simp_all
  show "\<forall>q. Either Eof q st = Eof st"
    by (simp add: Either_def Eof_byte [OF r])
  show "Eol st =
        Some (Inl (ParseErr (Sprintf (''Expected end of file but got '%c'' @ [CHR 0x27])
                               [ArgByte (Source st ! nat (Pos st))])
                     (if Source st ! nat (Pos st) = newline then Line st + 1 else Line st)),
              st\<lparr>Pos := Pos st + 1,
                 Line := (if Source st ! nat (Pos st) = newline then Line st + 1 else Line st)\<rparr>)"
    by (simp add: Eol_def Either_def Eof_byte [OF r])
next
  assume ok: "Eol st = Some (Inr v, st')"
  have "\<not> Pos st < 0"
  proof
    assume "Pos st < 0"
    then have "Eof st = None" by (simp add: Eof_def st_next_def)
    with ok show False by (simp add: Eol_def Either_def)
  qed
  moreover have "\<not> Pos st < int (length (Source st))" if "0 \<le> Pos st"
  proof
    assume "Pos st < int (length (Source st))"
    from Eof_byte [OF that this] ok show False by (simp add: Eol_def Either_def)
  qed
  ultimately have e: "int (length (Source st)) \<le> Pos st" by linarith
  from ok show "int (length (Source st)) \<le> Pos st" "v = VNil" "st' = st"
    using e by (simp_all add: Eol_def Either_def Eof_at_end [OF e])
qed

theorem Eol_consumes_witness:
  "Eol \<lparr>Source = [newline], Pos = 0, Line = 1\<rparr>
     = Some (Inl (ParseErr (Sprintf (''Expected end of file but got '%c'' @ [CHR 0x27])
                               [ArgByte newline]) 2),
             \<lparr>Source = [newline], Pos = 1, Line = 2\<rparr>) \<and>
   Either Eof panic \<lparr>Source = [newline], Pos = 0, Line = 1\<rparr>
     = Eof \<lparr>Source = [newline], Pos = 0, Line = 1\<rparr> \<and>
   Eol \<lparr>Source = [newline], Pos = 1, Line = 2\<rparr>
     = Some (Inr VNil, \<lparr>Source = [newline], Pos = 1, Line = 2\<rparr>) \<and>
   int (length (Source \<lparr>Source = [newline], Pos = 1, Line = 2\<rparr>))
     \<le> Pos \<lparr>Source = [newline], Pos = 1, Line = 2\<rparr>"
proof -
  have h: "Eol \<lparr>Source = [newline], Pos = 1, Line = 2\<rparr>
     = Some (Inr VNil, \<lparr>Source = [newline], Pos = 1, Line = 2\<rparr>)"
    by code_simp
  from h
    Eol_consumes [where st = "\<lparr>Source = [newline], Pos = 0, Line = 1\<rparr>"]
    Eol_consumes [where st = "\<lparr>Source = [newline], Pos = 1, Line = 2\<rparr>", THEN conjunct2, rule_format, OF h]
  show ?thesis by simp
qed

section \<open>The CSV scenario\<close>

text \<open>
  C9. The parser \<open>csv\<close> of the README, applied to the two lines \<^verbatim>\<open>foo,bar\<close> and
  \<^verbatim>\<open>hello,world,123\<close> separated by a newline byte, succeeds with the sequence of the two
  sequences of cell texts.
\<close>

theorem csv_example:
  "Parse csv (''foo,bar'' @ [newline] @ ''hello,world,123'') =
     Some (Inr (VList [VList [VString ''foo'', VString ''bar''],
                       VList [VString ''hello'', VString ''world'', VString ''123'']]))"
  by code_simp

section \<open>Literal matching\<close>

text \<open>
  What \<open>String s\<close> returns from a cursor whose position is not negative: it succeeds
  when all of \<open>s\<close> is matched, with the position after \<open>s\<close>; otherwise it fails with the
  position it started from. Either way the line counter has been incremented once for
  every newline among the bytes matched.
\<close>

lemma matched_Nil: "matched [] st = 0"
  by (simp add: matched_def)

lemma matched_le: "matched s st \<le> length s"
proof -
  have "matched s st \<le> length (zip s (drop (nat (Pos st)) (Source st)))"
    unfolding matched_def by (rule length_takeWhile_le)
  then show ?thesis by simp
qed

lemma matched_at_end:
  assumes "int (length (Source st)) \<le> Pos st"
  shows "matched s st = 0"
  using assms by (simp add: matched_def)

lemma matched_Cons:
  assumes "0 \<le> Pos st" and "Pos st < int (length (Source st))"
  shows "matched (c # cs) st =
    (if Source st ! nat (Pos st) = c then Suc (matched cs (st\<lparr>Pos := Pos st + 1, Line := l\<rparr>))
     else 0)"
proof -
  from assms have "nat (Pos st) < length (Source st)" by simp
  then have d: "drop (nat (Pos st)) (Source st)
      = Source st ! nat (Pos st) # drop (Suc (nat (Pos st))) (Source st)"
    by (simp add: Cons_nth_drop_Suc)
  from assms have "nat (Pos st + 1) = Suc (nat (Pos st))" by simp
  with d show ?thesis by (simp add: matched_def)
qed

lemma String_loop_exact:
  assumes "0 \<le> Pos st \<or> cs = []"
  shows "String_loop s oldPos cs st =
    (if matched cs st = length cs
     then Some (Inr (VString s),
                st\<lparr>Pos := Pos st + int (length cs),
                   Line := Line st + of_nat (count_list cs newline)\<rparr>)
     else Some (Inl (ParseErr (Sprintf (''Expected '%s'' @ [CHR 0x27]) [ArgString s])
                       (Line st + of_nat (count_list (take (matched cs st) cs) newline))),
                st\<lparr>Pos := oldPos,
                   Line := Line st + of_nat (count_list (take (matched cs st) cs) newline)\<rparr>))"
  using assms
proof (induction cs arbitrary: st)
  case Nil
  then show ?case by (simp add: matched_Nil)
next
  case (Cons c cs)
  then have nonneg: "0 \<le> Pos st" by simp
  show ?case
  proof (cases "Pos st < int (length (Source st))")
    case False
    then have "matched (c # cs) st = 0" by (simp add: matched_at_end)
    with False show ?thesis by (simp add: st_next_at_end st_trap_def)
  next
    case True
    show ?thesis
    proof (cases "Source st ! nat (Pos st) = c")
      case False
      with matched_Cons [OF nonneg True, of c cs] have "matched (c # cs) st = 0" by simp
      with nonneg True False show ?thesis by (simp add: st_next_in_range st_trap_def)
    next
      case same: True
      let ?st1 = "st\<lparr>Pos := Pos st + 1, Line := (if c = newline then Line st + 1 else Line st)\<rparr>"
      from same matched_Cons [OF nonneg True, of c cs]
      have m: "matched (c # cs) st = Suc (matched cs ?st1)"
        by simp
      from nonneg have "0 \<le> Pos ?st1 \<or> cs = []" by simp
      from Cons.IH [OF this] nonneg True same m show ?thesis
        by (simp add: st_next_in_range add.assoc)
    qed
  qed
qed

lemma String_exact:
  assumes "0 \<le> Pos st"
  shows "String s st =
    (if matched s st = length s
     then Some (Inr (VString s),
                st\<lparr>Pos := Pos st + int (length s),
                   Line := Line st + of_nat (count_list s newline)\<rparr>)
     else Some (Inl (ParseErr (Sprintf (''Expected '%s'' @ [CHR 0x27]) [ArgString s])
                       (Line st + of_nat (count_list (take (matched s st) s) newline))),
                st\<lparr>Line := Line st + of_nat (count_list (take (matched s st) s) newline)\<rparr>))"
  using String_loop_exact [of st s s "Pos st"] assms by (simp add: String_def)

lemma String_failure_nonneg:
  assumes "String s st = Some (Inl e, st')"
  shows "0 \<le> Pos st"
proof (rule ccontr)
  assume "\<not> 0 \<le> Pos st"
  then have neg: "Pos st < 0" by simp
  show False
  proof (cases s)
    case Nil
    with assms show False by (simp add: String_def)
  next
    case (Cons c cs)
    with assms neg show False by (simp add: String_def st_next_def)
  qed
qed


lemma String_failure_exact:
  assumes fails: "String s st = Some (Inl e, st')"
  shows "matched s st < length s \<and>
      st' = st\<lparr>Line := Line st + of_nat (count_list (take (matched s st) s) newline)\<rparr>"
proof -
  from fails have nonneg: "0 \<le> Pos st" by (rule String_failure_nonneg)
  have "matched s st \<noteq> length s"
  proof
    assume "matched s st = length s"
    with String_exact [OF nonneg, of s] fails show False by simp
  qed
  with matched_le [of s st] have lt: "matched s st < length s" by simp
  with String_exact [OF nonneg, of s] fails
  have "st' = st\<lparr>Line := Line st + of_nat (count_list (take (matched s st) s) newline)\<rparr>"
    by simp
  with lt show ?thesis by simp
qed

text \<open>
  C7. \<open>String ''abc''\<close> on the input \<^verbatim>\<open>abcd\<close> succeeds with the value \<^verbatim>\<open>abc\<close> and
  leaves the cursor at offset 3; on the input \<^verbatim>\<open>abx\<close> it fails and leaves the cursor at
  offset 0. For every literal \<open>s\<close> and every cursor, a failure of \<open>String s\<close> leaves the
  position where matching started.
\<close>

theorem String_literal:
  "String ''abc'' \<lparr>Source = ''abcd'', Pos = 0, Line = 1\<rparr>
     = Some (Inr (VString ''abc''), \<lparr>Source = ''abcd'', Pos = 3, Line = 1\<rparr>) \<and>
   String ''abc'' \<lparr>Source = ''abx'', Pos = 0, Line = 1\<rparr>
     = Some (Inl (ParseErr (Sprintf (''Expected '%s'' @ [CHR 0x27]) [ArgString ''abc'']) 1),
             \<lparr>Source = ''abx'', Pos = 0, Line = 1\<rparr>) \<and>
   (\<forall>s st e st'. String s st = Some (Inl e, st') \<longrightarrow> Pos st' = Pos st)"
proof (intro conjI allI impI)
  show "String ''abc'' \<lparr>Source = ''abcd'', Pos = 0, Line = 1\<rparr>
     = Some (Inr (VString ''abc''), \<lparr>Source = ''abcd'', Pos = 3, Line = 1\<rparr>)"
    by code_simp
  show "String ''abc'' \<lparr>Source = ''abx'', Pos = 0, Line = 1\<rparr>
     = Some (Inl (ParseErr (Sprintf (''Expected '%s'' @ [CHR 0x27]) [ArgString ''abc'']) 1),
             \<lparr>Source = ''abx'', Pos = 0, Line = 1\<rparr>)"
    by code_simp
next
  fix s st e st'
  assume "String s st = Some (Inl e, st')"
  from String_failure_exact [OF this]
  have "st' = st\<lparr>Line := Line st + of_nat (count_list (take (matched s st) s) newline)\<rparr>"
    by (rule conjunct2)
  then have "Pos st' = Pos (st\<lparr>Line := Line st + of_nat (count_list (take (matched s st) s) newline)\<rparr>)"
    by (rule arg_cong)
  then show "Pos st' = Pos st" by simp
qed

theorem String_literal_witness:
  "String ''ab'' \<lparr>Source = ''xxab!'', Pos = 2, Line = 7\<rparr>
     = Some (Inr (VString ''ab''), \<lparr>Source = ''xxab!'', Pos = 4, Line = 7\<rparr>) \<and>
   String ''ab!?'' \<lparr>Source = ''xxab!'', Pos = 2, Line = 7\<rparr>
     = Some (Inl (ParseErr (Sprintf (''Expected '%s'' @ [CHR 0x27]) [ArgString ''ab!?'']) 7),
             \<lparr>Source = ''xxab!'', Pos = 2, Line = 7\<rparr>) \<and>
   Pos \<lparr>Source = ''xxab!'', Pos = 2, Line = 7\<rparr> = 2"
proof -
  have h: "String ''ab!?'' \<lparr>Source = ''xxab!'', Pos = 2, Line = 7\<rparr>
     = Some (Inl (ParseErr (Sprintf (''Expected '%s'' @ [CHR 0x27]) [ArgString ''ab!?'']) 7),
             \<lparr>Source = ''xxab!'', Pos = 2, Line = 7\<rparr>)"
    by code_simp
  have "String ''ab'' \<lparr>Source = ''xxab!'', Pos = 2, Line = 7\<rparr>
     = Some (Inr (VString ''ab''), \<lparr>Source = ''xxab!'', Pos = 4, Line = 7\<rparr>)"
    by code_simp
  with h String_literal [THEN conjunct2, THEN conjunct2, rule_format, OF h]
  show ?thesis by simp
qed

section \<open>Backtracking and the line counter\<close>

text \<open>
  C10. \<open>Try\<close> and \<open>String\<close> put back the position only. After a failure of \<open>p\<close>,
  \<open>Try p\<close> returns the cursor that \<open>p\<close> left, line counter included, with nothing but the
  position set back. After a failure of \<open>String s\<close>, the cursor is the one it started
  from with the line counter incremented once for every newline byte among the
  \<open>matched s st\<close> bytes read before the first mismatch. On the input of a newline followed by
  \<^verbatim>\<open>y\<close>, a failed match of the literal newline-\<^verbatim>\<open>x\<close> (by \<open>String\<close>, or by two
  \<open>Char_p\<close> under \<open>Try\<close>) leaves position 0 on line 2, more than one plus the number of
  newlines before position 0; reading the newline again by \<open>AnyChar\<close> gives line 3 at
  position 1, past one newline.
\<close>

theorem backtrack_keeps_line:
  "(p st = Some (Inl e, st') \<longrightarrow> Try p st = Some (Inl e, st'\<lparr>Pos := Pos st\<rparr>)) \<and>
   (String s st = Some (Inl e, st') \<longrightarrow>
      matched s st < length s \<and>
      st' = st\<lparr>Line := Line st + of_nat (count_list (take (matched s st) s) newline)\<rparr>) \<and>
   String [newline, CHR ''x''] \<lparr>Source = [newline, CHR ''y''], Pos = 0, Line = 1\<rparr>
     = Some (Inl (ParseErr (Sprintf (''Expected '%s'' @ [CHR 0x27]) [ArgString [newline, CHR ''x'']]) 2),
             \<lparr>Source = [newline, CHR ''y''], Pos = 0, Line = 2\<rparr>) \<and>
   Try (Then (Char_p newline) (Char_p CHR ''x'')) \<lparr>Source = [newline, CHR ''y''], Pos = 0, Line = 1\<rparr>
     = Some (Inl (ParseErr (Sprintf (''Expected '%c'' @ [CHR 0x27]) [ArgByte CHR ''x'']) 2),
             \<lparr>Source = [newline, CHR ''y''], Pos = 0, Line = 2\<rparr>) \<and>
   1 + int (count_list (take 0 [newline, CHR ''y'']) newline) < sint (2 :: 64 word) \<and>
   AnyChar \<lparr>Source = [newline, CHR ''y''], Pos = 0, Line = 2\<rparr>
     = Some (Inr (VByte newline), \<lparr>Source = [newline, CHR ''y''], Pos = 1, Line = 3\<rparr>) \<and>
   1 + int (count_list (take 1 [newline, CHR ''y'']) newline) < sint (3 :: 64 word)"
proof (intro conjI impI)
  assume "p st = Some (Inl e, st')"
  then show "Try p st = Some (Inl e, st'\<lparr>Pos := Pos st\<rparr>)"
    by (simp add: Try_def)
next
  assume fails: "String s st = Some (Inl e, st')"
  from String_failure_exact [OF this]
  show "matched s st < length s"
    and "st' = st\<lparr>Line := Line st + of_nat (count_list (take (matched s st) s) newline)\<rparr>"
    by simp_all
next
  show "String [newline, CHR ''x''] \<lparr>Source = [newline, CHR ''y''], Pos = 0, Line = 1\<rparr>
     = Some (Inl (ParseErr (Sprintf (''Expected '%s'' @ [CHR 0x27]) [ArgString [newline, CHR ''x'']]) 2),
             \<lparr>Source = [newline, CHR ''y''], Pos = 0, Line = 2\<rparr>)"
    by code_simp
  show "Try (Then (Char_p newline) (Char_p CHR ''x'')) \<lparr>Source = [newline, CHR ''y''], Pos = 0, Line = 1\<rparr>
     = Some (Inl (ParseErr (Sprintf (''Expected '%c'' @ [CHR 0x27]) [ArgByte CHR ''x'']) 2),
             \<lparr>Source = [newline, CHR ''y''], Pos = 0, Line = 2\<rparr>)"
    by code_simp
  show "AnyChar \<lparr>Source = [newline, CHR ''y''], Pos = 0, Line = 2\<rparr>
     = Some (Inr (VByte newline), \<lparr>Source = [newline, CHR ''y''], Pos = 1, Line = 3\<rparr>)"
    by code_simp
  show "1 + int (count_list (take 0 [newline, CHR ''y'']) newline) < sint (2 :: 64 word)" by simp
  show "1 + int (count_list (take 1 [newline, CHR ''y'']) newline) < sint (3 :: 64 word)" by simp
qed

theorem backtrack_keeps_line_witness:
  "Try (Then (Char_p newline) (Char_p newline)) \<lparr>Source = [newline, CHR ''y''], Pos = 0, Line = 1\<rparr>
     = Some (Inl (ParseErr (Sprintf (''Expected '%c'' @ [CHR 0x27]) [ArgByte newline]) 2),
             \<lparr>Source = [newline, CHR ''y''], Pos = 1, Line = 2\<rparr>\<lparr>Pos := 0\<rparr>) \<and>
   matched [newline, newline] \<lparr>Source = [newline, CHR ''y''], Pos = 0, Line = 1\<rparr>
     < length [newline, newline] \<and>
   \<lparr>Source = [newline, CHR ''y''], Pos = 0, Line = 2\<rparr>
     = \<lparr>Source = [newline, CHR ''y''], Pos = 0, Line = 1\<rparr>
         \<lparr>Line := 1 + of_nat (count_list
             (take (matched [newline, newline] \<lparr>Source = [newline, CHR ''y''], Pos = 0, Line = 1\<rparr>)
                [newline, newline]) newline)\<rparr>"
proof -
  let ?st = "\<lparr>Source = [newline, CHR ''y''], Pos = 0, Line = 1\<rparr>"
  have h1: "Then (Char_p newline) (Char_p newline) ?st
      = Some (Inl (ParseErr (Sprintf (''Expected '%c'' @ [CHR 0x27]) [ArgByte newline]) 2),
              \<lparr>Source = [newline, CHR ''y''], Pos = 1, Line = 2\<rparr>)"
    by code_simp
  have h2: "String [newline, newline] ?st
      = Some (Inl (ParseErr (Sprintf (''Expected '%s'' @ [CHR 0x27]) [ArgString [newline, newline]]) 2),
              \<lparr>Source = [newline, CHR ''y''], Pos = 0, Line = 2\<rparr>)"
    by code_simp
  have l: "Line ?st = 1" and p: "Pos ?st = 0" by simp_all
  note a = backtrack_keeps_line [where p = "Then (Char_p newline) (Char_p newline)" and st = ?st,
      THEN conjunct1, rule_format, OF h1, unfolded p]
  note b = backtrack_keeps_line [where s = "[newline, newline]" and st = ?st,
      THEN conjunct2, THEN conjunct1, rule_format, OF h2, unfolded l]
  show ?thesis
    by (intro conjI) (rule a, rule b [THEN conjunct1], rule b [THEN conjunct2])
qed

section \<open>Repetition\<close>

text \<open>The source's equation for \<^verbatim>\<open>Many\<close>.\<close>

lemma Many_Many1: "Many p = Or (Many1 p) (Return (VList []))"
  by (rule ext) (simp add: Or_def Many1_def Many.simps [of p])

lemma Return_appendx_no_failure [simp]:
  "Return_appendx x xs st \<noteq> Some (Inl e, st')"
  by (cases xs) (simp_all add: Return_appendx_def appendx_def panic_def Return_def)

lemma Return_appendx_success:
  "Return_appendx x xs st = Some (Inr v, st') \<longleftrightarrow>
     (\<exists>ys. xs = VList ys \<and> v = VList (x # ys) \<and> st' = st)"
  by (cases xs) (auto simp: Return_appendx_def appendx_def panic_def Return_def)

text \<open>
  \<open>Many p\<close> fails only with the position moved (otherwise \<open>Either\<close> falls back to the
  empty sequence), and a success of \<open>Many p\<close> carries a slice.
\<close>

lemma Many_failure_moved:
  assumes "Many p st = Some (Inl e, st')"
  shows "Pos st' \<noteq> Pos st"
  using assms
  by (subst (asm) Many.simps)
     (auto simp: Either_def Return_def split: option.splits sum.splits if_splits)

lemma Many1_failure:
  assumes "Many1 p st = Some (Inl e, st')"
  shows "p st = Some (Inl e, st') \<or>
         (\<exists>x s1. p st = Some (Inr x, s1) \<and> Many p s1 = Some (Inl e, st'))"
  using assms
  by (auto simp: Many1_def Bind_def split: option.splits sum.splits)

lemma Many_success_list:
  assumes "Many p st = Some (Inr v, st')"
  shows "\<exists>xs. v = VList xs"
  using assms
  by (subst (asm) Many.simps)
     (auto simp: Either_def Bind_def Return_def Return_appendx_success
           split: option.splits sum.splits if_splits)

text \<open>
  By fixed-point induction: when no failure of \<open>p\<close> moves the position, no run of
  \<open>Many p\<close> that returns, returns a failure.
\<close>

lemma Many_no_failure_aux:
  assumes "Many p st = Some y"
  shows "(\<forall>s e s'. p s = Some (Inl e, s') \<longrightarrow> Pos s' = Pos s) \<longrightarrow> (\<exists>v. fst y = Inr v)"
proof (rule Many.raw_induct
    [where P = "\<lambda>p st y. (\<forall>s e s'. p s = Some (Inl e, s') \<longrightarrow> Pos s' = Pos s)
                  \<longrightarrow> (\<exists>v. fst y = Inr v)", OF _ assms])
  fix M :: "Parser \<Rightarrow> Parser" and p st y
  assume IH: "\<And>p st y. M p st = Some y \<Longrightarrow>
      (\<forall>s e s'. p s = Some (Inl e, s') \<longrightarrow> Pos s' = Pos s) \<longrightarrow> (\<exists>v. fst y = Inr v)"
    and step: "Either (Bind p (\<lambda>x. Bind (M p) (Return_appendx x))) (Return (VList [])) st = Some y"
  show "(\<forall>s e s'. p s = Some (Inl e, s') \<longrightarrow> Pos s' = Pos s) \<longrightarrow> (\<exists>v. fst y = Inr v)"
  proof
    assume zero: "\<forall>s e s'. p s = Some (Inl e, s') \<longrightarrow> Pos s' = Pos s"
    show "\<exists>v. fst y = Inr v"
    proof (cases "fst y")
      case (Inr v)
      then show ?thesis by simp
    next
      case (Inl e)
      then have y: "y = (Inl e, snd y)" by (cases y) simp
      with step have body: "Bind p (\<lambda>x. Bind (M p) (Return_appendx x)) st = Some (Inl e, snd y)"
        and moved: "Pos (snd y) \<noteq> Pos st"
        by (auto simp: Either_def Return_def split: option.splits sum.splits if_splits)
      from body zero moved obtain x s1 where "p st = Some (Inr x, s1)"
        and inner: "Bind (M p) (Return_appendx x) s1 = Some (Inl e, snd y)"
        by (auto simp: Bind_def split: option.splits sum.splits)
      from inner have "M p s1 = Some (Inl e, snd y)"
        by (auto simp: Bind_def split: option.splits sum.splits)
      from IH [OF this] zero show ?thesis by simp
    qed
  qed
qed

lemma Many_no_failure:
  assumes "\<And>s e s'. p s = Some (Inl e, s') \<Longrightarrow> Pos s' = Pos s"
  shows "Many p st \<noteq> Some (Inl e, st')"
proof
  assume "Many p st = Some (Inl e, st')"
  from Many_no_failure_aux [OF this] assms show False by auto
qed

text \<open>
  \<open>Many p\<close> returns when \<open>p\<close> always returns from a cursor within its source, keeps
  the source and the bounds, and advances whenever it succeeds: the bytes left decrease.
\<close>

lemma Many_returns:
  assumes zero: "\<And>s e s'. p s = Some (Inl e, s') \<Longrightarrow> Pos s' = Pos s"
    and progress: "\<And>s. 0 \<le> Pos s \<Longrightarrow> Pos s \<le> int (length (Source s)) \<Longrightarrow>
          \<exists>r s'. p s = Some (r, s') \<and> Source s' = Source s \<and>
                 Pos s' \<le> int (length (Source s')) \<and> (\<forall>x. r = Inr x \<longrightarrow> Pos s < Pos s')"
    and range: "0 \<le> Pos st" "Pos st \<le> int (length (Source st))"
  shows "\<exists>xs st'. Many p st = Some (Inr (VList xs), st')"
  using range
proof (induction "nat (int (length (Source st)) - Pos st)" arbitrary: st rule: less_induct)
  case less
  from progress [OF less.prems] obtain r s1 where p: "p st = Some (r, s1)"
    and src: "Source s1 = Source st" and le: "Pos s1 \<le> int (length (Source s1))"
    and adv: "\<forall>x. r = Inr x \<longrightarrow> Pos st < Pos s1"
    by blast
  show ?case
  proof (cases r)
    case (Inl e)
    with p zero have "Pos s1 = Pos st" by blast
    with p Inl have "Many p st = Some (Inr (VList []), s1)"
      by (subst Many.simps) (simp add: Either_def Bind_def Return_def)
    then show ?thesis by blast
  next
    case (Inr x)
    with adv have lt: "Pos st < Pos s1" by simp
    with less.prems src le
    have "nat (int (length (Source s1)) - Pos s1) < nat (int (length (Source st)) - Pos st)"
      and "0 \<le> Pos s1"
      by simp_all
    from less.hyps [OF this(1) this(2) le] obtain xs s2
      where "Many p s1 = Some (Inr (VList xs), s2)" by blast
    with p Inr have "Many p st = Some (Inr (VList (x # xs)), s2)"
      by (subst Many.simps)
         (simp add: Either_def Bind_def Return_def Return_appendx_def appendx_def)
    then show ?thesis by blast
  qed
qed


lemma Char_p_failure:
  assumes "Char_p c st = Some (Inl e, st')"
  shows "st' = st"
  using assms
  by (auto simp: Char_p_def split: option.splits prod.splits if_splits dest: st_next_result)

lemma Char_p_progress:
  assumes "0 \<le> Pos st" and "Pos st \<le> int (length (Source st))"
  shows "\<exists>r st'. Char_p c st = Some (r, st') \<and> Source st' = Source st \<and>
           Pos st' \<le> int (length (Source st')) \<and> (\<forall>x. r = Inr x \<longrightarrow> Pos st < Pos st')"
proof -
  from st_next_returns [OF assms(1)] obtain x ok st'
    where n: "st_next (\<lambda>b. b = c) st = Some ((x, ok), st')" by blast
  from st_next_result [OF n] n assms show ?thesis
    by (auto simp: Char_p_def)
qed

text \<open>
  C2, as amended. Let no failure of \<open>p\<close> move the position. Then \<open>Many p\<close> never returns
  a failure, and \<open>Many1 p\<close> returns a failure exactly when the first application of \<open>p\<close>
  does (the same failure, the same cursor). If moreover \<open>p\<close>, from every cursor within its
  source, returns, keeps the source and the bounds, and advances the position when it
  succeeds, then \<open>Many p\<close> from such a cursor returns a success carrying a slice.
\<close>

theorem Many_totality:
  assumes "\<forall>s e s'. p s = Some (Inl e, s') \<longrightarrow> Pos s' = Pos s"
  shows "(\<forall>e st'. Many p st \<noteq> Some (Inl e, st')) \<and>
         (\<forall>e st'. Many1 p st = Some (Inl e, st') \<longleftrightarrow> p st = Some (Inl e, st')) \<and>
         ((\<forall>s. 0 \<le> Pos s \<and> Pos s \<le> int (length (Source s)) \<longrightarrow>
              (\<exists>r s'. p s = Some (r, s') \<and> Source s' = Source s \<and>
                 Pos s' \<le> int (length (Source s')) \<and> (\<forall>x. r = Inr x \<longrightarrow> Pos s < Pos s'))) \<and>
          0 \<le> Pos st \<and> Pos st \<le> int (length (Source st)) \<longrightarrow>
          (\<exists>xs st'. Many p st = Some (Inr (VList xs), st')))"
proof (intro conjI allI impI)
  from assms have zero: "\<And>s e s'. p s = Some (Inl e, s') \<Longrightarrow> Pos s' = Pos s"
    by blast
  fix e st'
  show "Many p st \<noteq> Some (Inl e, st')"
    by (rule Many_no_failure) (rule zero)
  show "Many1 p st = Some (Inl e, st') \<longleftrightarrow> p st = Some (Inl e, st')"
  proof
    assume "Many1 p st = Some (Inl e, st')"
    moreover have "\<And>s. Many p s \<noteq> Some (Inl e, st')"
      by (rule Many_no_failure) (rule zero)
    ultimately show "p st = Some (Inl e, st')"
      using Many1_failure [of p st e st'] by blast
  next
    assume "p st = Some (Inl e, st')"
    then show "Many1 p st = Some (Inl e, st')" by (simp add: Many1_def Bind_def)
  qed
next
  assume h: "(\<forall>s. 0 \<le> Pos s \<and> Pos s \<le> int (length (Source s)) \<longrightarrow>
              (\<exists>r s'. p s = Some (r, s') \<and> Source s' = Source s \<and>
                 Pos s' \<le> int (length (Source s')) \<and> (\<forall>x. r = Inr x \<longrightarrow> Pos s < Pos s'))) \<and>
          0 \<le> Pos st \<and> Pos st \<le> int (length (Source st))"
  show "\<exists>xs st'. Many p st = Some (Inr (VList xs), st')"
  proof (rule Many_returns [of p])
    show "\<And>s e s'. p s = Some (Inl e, s') \<Longrightarrow> Pos s' = Pos s" using assms by blast
    show "\<And>s. 0 \<le> Pos s \<Longrightarrow> Pos s \<le> int (length (Source s)) \<Longrightarrow>
          \<exists>r s'. p s = Some (r, s') \<and> Source s' = Source s \<and>
                 Pos s' \<le> int (length (Source s')) \<and> (\<forall>x. r = Inr x \<longrightarrow> Pos s < Pos s')"
      using h by blast
    show "0 \<le> Pos st" "Pos st \<le> int (length (Source st))" using h by simp_all
  qed
qed

theorem Many_totality_witness:
  "(\<forall>e st'. Many (Char_p CHR ''a'') \<lparr>Source = ''aab'', Pos = 0, Line = 1\<rparr> \<noteq> Some (Inl e, st')) \<and>
   (\<exists>xs st'. Many (Char_p CHR ''a'') \<lparr>Source = ''aab'', Pos = 0, Line = 1\<rparr>
              = Some (Inr (VList xs), st')) \<and>
   Many1 (Char_p CHR ''a'') \<lparr>Source = ''b'', Pos = 0, Line = 1\<rparr>
     = Some (Inl (ParseErr (Sprintf (''Expected '%c'' @ [CHR 0x27]) [ArgByte CHR ''a'']) 1),
             \<lparr>Source = ''b'', Pos = 0, Line = 1\<rparr>)"
proof -
  have zero: "\<forall>s e s'. Char_p CHR ''a'' s = Some (Inl e, s') \<longrightarrow> Pos s' = Pos s"
    by (auto dest: Char_p_failure)
  have first: "Char_p CHR ''a'' \<lparr>Source = ''b'', Pos = 0, Line = 1\<rparr>
     = Some (Inl (ParseErr (Sprintf (''Expected '%c'' @ [CHR 0x27]) [ArgByte CHR ''a'']) 1),
             \<lparr>Source = ''b'', Pos = 0, Line = 1\<rparr>)"
    by code_simp
  note a = Many_totality [of "Char_p CHR ''a''" "\<lparr>Source = ''aab'', Pos = 0, Line = 1\<rparr>", OF zero]
  note b = Many_totality [of "Char_p CHR ''a''" "\<lparr>Source = ''b'', Pos = 0, Line = 1\<rparr>", OF zero]
  from a have "\<forall>e st'. Many (Char_p CHR ''a'') \<lparr>Source = ''aab'', Pos = 0, Line = 1\<rparr> \<noteq> Some (Inl e, st')"
    by (rule conjunct1)
  moreover from a have "\<exists>xs st'. Many (Char_p CHR ''a'') \<lparr>Source = ''aab'', Pos = 0, Line = 1\<rparr>
              = Some (Inr (VList xs), st')"
    using Char_p_progress by simp
  moreover from b first have "Many1 (Char_p CHR ''a'') \<lparr>Source = ''b'', Pos = 0, Line = 1\<rparr>
     = Some (Inl (ParseErr (Sprintf (''Expected '%c'' @ [CHR 0x27]) [ArgByte CHR ''a'']) 1),
             \<lparr>Source = ''b'', Pos = 0, Line = 1\<rparr>)"
    by blast
  ultimately show ?thesis by blast
qed

text \<open>
  C2 as stated fails: \<open>Then (Char_p a) (Char_p b)\<close> on the input \<^verbatim>\<open>abac\<close> succeeds at
  its first application, reads \<^verbatim>\<open>a\<close> at its second and fails on \<^verbatim>\<open>c\<close> with the
  position moved; \<open>Many1\<close> and \<open>Many\<close> of it both return that failure.
\<close>

theorem Many_fails_counterexample:
  "Then (Char_p CHR ''a'') (Char_p CHR ''b'') \<lparr>Source = ''abac'', Pos = 0, Line = 1\<rparr>
     = Some (Inr (VByte CHR ''b''), \<lparr>Source = ''abac'', Pos = 2, Line = 1\<rparr>) \<and>
   Many1 (Then (Char_p CHR ''a'') (Char_p CHR ''b'')) \<lparr>Source = ''abac'', Pos = 0, Line = 1\<rparr>
     = Some (Inl (ParseErr (Sprintf (''Expected '%c'' @ [CHR 0x27]) [ArgByte CHR ''b'']) 1),
             \<lparr>Source = ''abac'', Pos = 3, Line = 1\<rparr>) \<and>
   Many (Then (Char_p CHR ''a'') (Char_p CHR ''b'')) \<lparr>Source = ''abac'', Pos = 0, Line = 1\<rparr>
     = Some (Inl (ParseErr (Sprintf (''Expected '%c'' @ [CHR 0x27]) [ArgByte CHR ''b'']) 1),
             \<lparr>Source = ''abac'', Pos = 3, Line = 1\<rparr>)"
  by code_simp

section \<open>Skipping\<close>

lemma OneOf_failure:
  assumes "OneOf set_p st = Some (Inl e, st')"
  shows "st' = st"
  using assms
  by (auto simp: OneOf_def split: option.splits prod.splits if_splits dest: st_next_result)

lemma OneOf_returns:
  assumes "0 \<le> Pos st"
  shows "\<exists>r st'. OneOf set_p st = Some (r, st')"
proof -
  from st_next_returns [OF assms] obtain x ok st'
    where "st_next (\<lambda>c. c \<in> set set_p) st = Some ((x, ok), st')" by blast
  then show ?thesis by (simp add: OneOf_def)
qed

text \<open>
  C6, as amended. \<open>Skip p\<close> runs \<open>p\<close> once and discards its value: it succeeds with
  \<^verbatim>\<open>nil\<close> when \<open>p\<close> succeeds and when \<open>p\<close> fails with the position unchanged, and it
  returns the failure of \<open>p\<close> when \<open>p\<close> fails with the position moved. \<open>SkipMany p\<close> returns
  what \<open>Many p\<close> returns, with the value of a success replaced by \<^verbatim>\<open>nil\<close>. \<open>Spaces\<close>
  succeeds with \<^verbatim>\<open>nil\<close> from every cursor whose position is not negative.
\<close>

theorem Skip_discards:
  "(p st = Some (Inr x, st') \<longrightarrow> Skip p st = Some (Inr VNil, st')) \<and>
   (p st = Some (Inl e, st') \<and> Pos st' = Pos st \<longrightarrow> Skip p st = Some (Inr VNil, st')) \<and>
   (p st = Some (Inl e, st') \<and> Pos st' \<noteq> Pos st \<longrightarrow> Skip p st = Some (Inl e, st')) \<and>
   SkipMany p st =
     map_option (\<lambda>(r, s). (case r of Inl err \<Rightarrow> Inl err | Inr v \<Rightarrow> Inr VNil, s)) (Many p st) \<and>
   (0 \<le> Pos st \<longrightarrow> (\<exists>s. Spaces st = Some (Inr VNil, s)))"
proof (intro conjI impI)
  show "SkipMany p st =
     map_option (\<lambda>(r, s). (case r of Inl err \<Rightarrow> Inl err | Inr v \<Rightarrow> Inr VNil, s)) (Many p st)"
  proof (cases "Many p st")
    case None
    then show ?thesis by (simp add: SkipMany_def Skip_def Or_def Either_def Then_def)
  next
    case (Some y)
    obtain r s where y: "y = (r, s)" by (cases y)
    show ?thesis
    proof (cases r)
      case (Inl err)
      with Some y have "Pos s \<noteq> Pos st" by (auto dest: Many_failure_moved)
      with Some y Inl show ?thesis
        by (simp add: SkipMany_def Skip_def Or_def Either_def Then_def)
    next
      case (Inr v)
      with Some y show ?thesis
        by (simp add: SkipMany_def Skip_def Or_def Either_def Then_def Return_def)
    qed
  qed
next
  assume r: "0 \<le> Pos st"
  from OneOf_returns [OF r] obtain res s where o: "Space st = Some (res, s)"
    unfolding Space_def by blast
  show "\<exists>s. Spaces st = Some (Inr VNil, s)"
  proof (cases res)
    case (Inl err)
    with o have "s = st" unfolding Space_def by (auto dest: OneOf_failure)
    with o Inl show ?thesis
      by (simp add: Spaces_def Skip_def Or_def Either_def Then_def Return_def)
  next
    case (Inr v)
    with o show ?thesis
      by (simp add: Spaces_def Skip_def Or_def Either_def Then_def Return_def)
  qed
qed (simp_all add: Skip_def Or_def Either_def Then_def Return_def)

theorem Skip_discards_witness:
  "Skip (Char_p CHR ''a'') \<lparr>Source = ''ab'', Pos = 0, Line = 1\<rparr>
     = Some (Inr VNil, \<lparr>Source = ''ab'', Pos = 1, Line = 1\<rparr>) \<and>
   Skip (Char_p CHR ''a'') \<lparr>Source = ''b'', Pos = 0, Line = 1\<rparr>
     = Some (Inr VNil, \<lparr>Source = ''b'', Pos = 0, Line = 1\<rparr>) \<and>
   Skip (Then (Char_p CHR ''a'') (Char_p CHR ''b'')) \<lparr>Source = ''ac'', Pos = 0, Line = 1\<rparr>
     = Some (Inl (ParseErr (Sprintf (''Expected '%c'' @ [CHR 0x27]) [ArgByte CHR ''b'']) 1),
             \<lparr>Source = ''ac'', Pos = 1, Line = 1\<rparr>) \<and>
   (\<exists>s. Spaces \<lparr>Source = ''ab'', Pos = 0, Line = 1\<rparr> = Some (Inr VNil, s))"
proof -
  let ?a = "Char_p CHR ''a''" and ?ab = "Then (Char_p CHR ''a'') (Char_p CHR ''b'')"
  have h1: "?a \<lparr>Source = ''ab'', Pos = 0, Line = 1\<rparr>
      = Some (Inr (VByte CHR ''a''), \<lparr>Source = ''ab'', Pos = 1, Line = 1\<rparr>)"
    by code_simp
  have h2: "?a \<lparr>Source = ''b'', Pos = 0, Line = 1\<rparr>
      = Some (Inl (ParseErr (Sprintf (''Expected '%c'' @ [CHR 0x27]) [ArgByte CHR ''a'']) 1),
              \<lparr>Source = ''b'', Pos = 0, Line = 1\<rparr>)"
    by code_simp
  have h3: "?ab \<lparr>Source = ''ac'', Pos = 0, Line = 1\<rparr>
      = Some (Inl (ParseErr (Sprintf (''Expected '%c'' @ [CHR 0x27]) [ArgByte CHR ''b'']) 1),
              \<lparr>Source = ''ac'', Pos = 1, Line = 1\<rparr>)"
    by code_simp
  from h1 h2 h3
    Skip_discards [where p = ?a and st = "\<lparr>Source = ''ab'', Pos = 0, Line = 1\<rparr>"]
    Skip_discards [where p = ?a and st = "\<lparr>Source = ''b'', Pos = 0, Line = 1\<rparr>"]
    Skip_discards [where p = ?ab and st = "\<lparr>Source = ''ac'', Pos = 0, Line = 1\<rparr>"]
  show ?thesis by simp
qed

text \<open>
  C6 as stated fails: on the input \<^verbatim>\<open>aa\<close>, \<open>Skip (Char_p a)\<close> stops after one byte,
  where one-or-more of \<open>Char_p a\<close> with its values discarded reads both.
\<close>

theorem Skip_once_counterexample:
  "Skip (Char_p CHR ''a'') \<lparr>Source = ''aa'', Pos = 0, Line = 1\<rparr>
     = Some (Inr VNil, \<lparr>Source = ''aa'', Pos = 1, Line = 1\<rparr>) \<and>
   Then (Many1 (Char_p CHR ''a'')) (Return VNil) \<lparr>Source = ''aa'', Pos = 0, Line = 1\<rparr>
     = Some (Inr VNil, \<lparr>Source = ''aa'', Pos = 2, Line = 1\<rparr>)"
  by code_simp

text \<open>\<open>Spaces\<close> is \<open>Skip Space\<close>: of two leading blanks it reads one, \<open>SkipMany Space\<close> both.\<close>

lemma Spaces_two_blanks:
  "Spaces \<lparr>Source = ''  x'', Pos = 0, Line = 1\<rparr>
     = Some (Inr VNil, \<lparr>Source = ''  x'', Pos = 1, Line = 1\<rparr>) \<and>
   SkipMany Space \<lparr>Source = ''  x'', Pos = 0, Line = 1\<rparr>
     = Some (Inr VNil, \<lparr>Source = ''  x'', Pos = 2, Line = 1\<rparr>)"
  by code_simp

section \<open>The cursor invariant\<close>

lemma follows_refl: "in_bounds st \<Longrightarrow> follows st st"
  by (simp add: follows_def)

lemma follows_trans: "follows a b \<Longrightarrow> follows b c \<Longrightarrow> follows a c"
  by (simp add: follows_def)

lemma follows_in_bounds: "follows a b \<Longrightarrow> in_bounds b"
  by (simp add: follows_def)

lemma preservingI:
  assumes "\<And>st r st'. in_bounds st \<Longrightarrow> p st = Some (r, st') \<Longrightarrow> follows st st'"
  shows "preserving p"
  using assms unfolding preserving_def by blast

lemma preservingD:
  assumes "preserving p" and "in_bounds st" and "p st = Some (r, st')"
  shows "follows st st'"
  using assms unfolding preserving_def by blast

lemma st_next_follows:
  assumes "in_bounds st" and "st_next pred st = Some ((c, ok), st')"
  shows "follows st st'"
  using st_next_result [OF assms(2)] assms(1)
  by (auto simp: follows_def in_bounds_def)

lemma preserving_AnyChar: "preserving AnyChar"
  by (rule preservingI)
     (auto simp: AnyChar_def split: option.splits prod.splits if_splits dest: st_next_follows)

lemma preserving_Eof: "preserving Eof"
  by (rule preservingI)
     (auto simp: Eof_def split: option.splits prod.splits if_splits dest: st_next_follows)

lemma preserving_Char: "preserving (Char_p c)"
  by (rule preservingI)
     (auto simp: Char_p_def split: option.splits prod.splits if_splits dest: st_next_follows)

lemma preserving_OneOf: "preserving (OneOf set_p)"
  by (rule preservingI)
     (auto simp: OneOf_def split: option.splits prod.splits if_splits dest: st_next_follows)

lemma preserving_NoneOf: "preserving (NoneOf set_p)"
  by (rule preservingI)
     (auto simp: NoneOf_def split: option.splits prod.splits if_splits dest: st_next_follows)

lemma preserving_Return: "preserving (Return x)"
  by (rule preservingI) (auto simp: Return_def follows_refl)

lemma preserving_Fail: "preserving (Fail msg)"
  by (rule preservingI) (auto simp: Fail_def follows_refl)

lemma preserving_panic: "preserving panic"
  by (rule preservingI) (simp add: panic_def)

lemma preserving_Return_appendx: "preserving (Return_appendx x xs)"
  by (cases "appendx x xs") (simp_all add: Return_appendx_def preserving_panic preserving_Return)

lemma String_loop_follows:
  assumes "String_loop s oldPos cs st = Some (r, st')"
    and "in_bounds st" and "0 \<le> oldPos" and "oldPos \<le> int (length (Source st))"
  shows "follows st st'"
  using assms
proof (induction cs arbitrary: st)
  case Nil
  then show ?case by (simp add: follows_refl)
next
  case (Cons c cs)
  from Cons.prems(1) obtain x ok s1 where n: "st_next (\<lambda>b. b = c) st = Some ((x, ok), s1)"
    by (auto split: option.splits)
  from st_next_follows [OF Cons.prems(2) n] have f1: "follows st s1" .
  show ?case
  proof (cases ok)
    case False
    with Cons.prems(1) n have "st' = s1\<lparr>Pos := oldPos\<rparr>" by (simp add: Let_def)
    with f1 Cons.prems(3,4) show ?thesis by (simp add: follows_def in_bounds_def)
  next
    case True
    with Cons.prems(1) n have run: "String_loop s oldPos cs s1 = Some (r, st')" by simp
    from f1 have b1: "in_bounds s1" by (rule follows_in_bounds)
    from f1 Cons.prems(4) have "oldPos \<le> int (length (Source s1))"
      by (simp add: follows_def)
    with run b1 Cons.prems(3) have "follows s1 st'" by (rule Cons.IH)
    with f1 show ?thesis by (rule follows_trans)
  qed
qed

lemma preserving_String: "preserving (String s)"
proof (rule preservingI)
  fix st r st'
  assume "in_bounds st" and "String s st = Some (r, st')"
  then show "follows st st'"
    by (auto simp: String_def in_bounds_def intro: String_loop_follows)
qed

lemma preserving_Bind:
  assumes "preserving p" and "\<And>x. preserving (f x)"
  shows "preserving (Bind p f)"
proof (rule preservingI)
  fix st r st'
  assume b: "in_bounds st" and run: "Bind p f st = Some (r, st')"
  then obtain r1 s1 where p: "p st = Some (r1, s1)"
    by (auto simp: Bind_def split: option.splits)
  from preservingD [OF assms(1) b p] have f1: "follows st s1" .
  show "follows st st'"
  proof (cases r1)
    case (Inl err)
    with run p f1 show ?thesis by (simp add: Bind_def)
  next
    case (Inr x)
    with run p have "f x s1 = Some (r, st')" by (simp add: Bind_def)
    from preservingD [OF assms(2) follows_in_bounds [OF f1] this] f1
    show ?thesis by (blast intro: follows_trans)
  qed
qed

lemma preserving_Then:
  assumes "preserving p1" and "preserving p2"
  shows "preserving (Then p1 p2)"
proof -
  have "Then p1 p2 = Bind p1 (\<lambda>x. p2)"
    by (rule ext) (simp add: Then_def Bind_def)
  with assms show ?thesis by (simp add: preserving_Bind)
qed

lemma preserving_Either:
  assumes "preserving p1" and "preserving p2"
  shows "preserving (Either p1 p2)"
proof (rule preservingI)
  fix st r st'
  assume b: "in_bounds st" and run: "Either p1 p2 st = Some (r, st')"
  then obtain r1 s1 where p: "p1 st = Some (r1, s1)"
    by (auto simp: Either_def split: option.splits)
  from preservingD [OF assms(1) b p] have f1: "follows st s1" .
  show "follows st st'"
  proof (cases "\<exists>err. r1 = Inl err \<and> Pos s1 = Pos st")
    case True
    with run p have "p2 s1 = Some (r, st')" by (auto simp: Either_def)
    from preservingD [OF assms(2) follows_in_bounds [OF f1] this] f1
    show ?thesis by (blast intro: follows_trans)
  next
    case False
    with run p have "st' = s1" by (cases r1) (auto simp: Either_def split: if_splits)
    with f1 show ?thesis by simp
  qed
qed

lemma preserving_Try:
  assumes "preserving p"
  shows "preserving (Try p)"
proof (rule preservingI)
  fix st r st'
  assume b: "in_bounds st" and run: "Try p st = Some (r, st')"
  then obtain r1 s1 where p: "p st = Some (r1, s1)"
    by (auto simp: Try_def split: option.splits)
  from preservingD [OF assms b p] have f1: "follows st s1" .
  with run p b show "follows st st'"
    by (cases r1) (auto simp: Try_def follows_def in_bounds_def)
qed

text \<open>The two fixed points, by fixed-point induction over the combinators of their bodies.\<close>

text \<open>The two fixed points, by fixed-point induction over the combinators of their bodies.\<close>

lemma preserving_Many:
  assumes "preserving p"
  shows "preserving (Many p)"
proof (rule preservingI)
  fix st r st'
  assume b: "in_bounds st" and run: "Many p st = Some (r, st')"
  have "preserving p \<longrightarrow> in_bounds st \<longrightarrow> follows st (snd (r, st'))"
  proof (rule Many.raw_induct
      [where P = "\<lambda>p st y. preserving p \<longrightarrow> in_bounds st \<longrightarrow> follows st (snd y)", OF _ run])
    fix M :: "Parser \<Rightarrow> Parser" and p st y
    assume IH: "\<And>p st y. M p st = Some y \<Longrightarrow>
        preserving p \<longrightarrow> in_bounds st \<longrightarrow> follows st (snd y)"
      and step: "Either (Bind p (\<lambda>x. Bind (M p) (Return_appendx x))) (Return (VList [])) st = Some y"
    show "preserving p \<longrightarrow> in_bounds st \<longrightarrow> follows st (snd y)"
    proof (intro impI)
      assume p: "preserving p" and b: "in_bounds st"
      from IH p have "preserving (M p)" by (intro preservingI) fastforce
      with p have "preserving (Either (Bind p (\<lambda>x. Bind (M p) (Return_appendx x))) (Return (VList [])))"
        by (intro preserving_Either preserving_Bind preserving_Return preserving_Return_appendx)
      from preservingD [OF this b, of "fst y" "snd y"] step show "follows st (snd y)" by simp
    qed
  qed
  with assms b show "follows st st'" by simp
qed

lemma preserving_ManyTill:
  assumes "preserving p" and "preserving end_p"
  shows "preserving (ManyTill p end_p)"
proof (rule preservingI)
  fix st r st'
  assume b: "in_bounds st" and run: "ManyTill p end_p st = Some (r, st')"
  have "preserving p \<longrightarrow> preserving end_p \<longrightarrow> in_bounds st \<longrightarrow> follows st (snd (r, st'))"
  proof (rule ManyTill.raw_induct
      [where P = "\<lambda>p end_p st y. preserving p \<longrightarrow> preserving end_p \<longrightarrow> in_bounds st
                     \<longrightarrow> follows st (snd y)", OF _ run])
    fix M :: "Parser \<Rightarrow> Parser \<Rightarrow> Parser" and p end_p st y
    assume IH: "\<And>p end_p st y. M p end_p st = Some y \<Longrightarrow>
        preserving p \<longrightarrow> preserving end_p \<longrightarrow> in_bounds st \<longrightarrow> follows st (snd y)"
      and step: "Either (Then (Try end_p) (Return (VList [])))
          (Bind p (\<lambda>x. Bind (M p end_p) (Return_appendx x))) st = Some y"
    show "preserving p \<longrightarrow> preserving end_p \<longrightarrow> in_bounds st \<longrightarrow> follows st (snd y)"
    proof (intro impI)
      assume p: "preserving p" and e: "preserving end_p" and b: "in_bounds st"
      from IH p e have "preserving (M p end_p)" by (intro preservingI) fastforce
      with p e have "preserving (Either (Then (Try end_p) (Return (VList [])))
          (Bind p (\<lambda>x. Bind (M p end_p) (Return_appendx x))))"
        by (intro preserving_Either preserving_Bind preserving_Then preserving_Try
              preserving_Return preserving_Return_appendx)
      from preservingD [OF this b, of "fst y" "snd y"] step show "follows st (snd y)" by simp
    qed
  qed
  with assms b show "follows st st'" by simp
qed

lemma preserving_Many1:
  assumes "preserving p"
  shows "preserving (Many1 p)"
  unfolding Many1_def using assms
  by (intro preserving_Bind preserving_Many preserving_Return_appendx)

lemma preserving_ToString:
  assumes "preserving p"
  shows "preserving (ToString p)"
  unfolding ToString_def
proof (rule preserving_Bind [OF assms])
  fix x
  show "preserving (case x of VList xs \<Rightarrow>
                      (case bytes_of xs of None \<Rightarrow> panic | Some bs \<Rightarrow> Return (VString bs))
                    | _ \<Rightarrow> panic)"
    by (simp add: preserving_panic preserving_Return split: val.split option.split)
qed

lemma preserving_Skip:
  assumes "preserving p"
  shows "preserving (Skip p)"
  unfolding Skip_def Or_def using assms
  by (intro preserving_Either preserving_Then preserving_Return)

lemma preserving_SepBy1:
  assumes "preserving p" and "preserving sep"
  shows "preserving (SepBy1 p sep)"
  unfolding SepBy1_def using assms
  by (intro preserving_Bind preserving_Many preserving_Then preserving_Return_appendx)

lemma preserving_Between:
  assumes "preserving p" and "preserving start" and "preserving end_p"
  shows "preserving (Between p start end_p)"
  unfolding Between_def Let_def using assms
  by (intro preserving_Then preserving_Bind preserving_Return)

lemma library_parser_preserving:
  assumes "library_parser p"
  shows "preserving p"
  using assms
proof (induction rule: library_parser.induct)
  case (lib_Or p1 p2)
  then show ?case by (simp add: Or_def preserving_Either)
next
  case (lib_SkipMany p)
  then show ?case by (simp add: SkipMany_def preserving_Skip preserving_Many)
next
  case (lib_SepBy p sep)
  then show ?case
    by (simp add: SepBy_def Or_def preserving_Either preserving_SepBy1 preserving_Return)
qed (simp_all add: preserving_AnyChar preserving_Eof preserving_Char preserving_OneOf
       preserving_NoneOf preserving_String preserving_Return preserving_Fail preserving_Bind
       preserving_Then preserving_Either preserving_Try preserving_ToString preserving_Many1
       preserving_Many preserving_ManyTill preserving_Skip preserving_Between preserving_SepBy1)

section \<open>The line counter of a run\<close>

text \<open>A run counted by \<open>line_count\<close> is a run of the parser, and adds its count to the line counter.\<close>

lemma st_next_line:
  assumes "st_next pred st = Some ((c, ok), st')"
  shows "Line st' = Line st + of_nat (newlines_between st st')"
proof -
  from st_next_result [OF assms] show ?thesis
  proof
    assume "ok = False \<and> st' = st"
    then show ?thesis by (simp add: newlines_between_def)
  next
    assume a: "ok = True \<and> 0 \<le> Pos st \<and> Pos st < int (length (Source st)) \<and>
          c = Source st ! nat (Pos st) \<and> pred c \<and>
          st' = st\<lparr>Pos := Pos st + 1, Line := (if c = newline then Line st + 1 else Line st)\<rparr>"
    then have r: "0 \<le> Pos st" "Pos st < int (length (Source st))"
      and c: "c = Source st ! nat (Pos st)"
      and st': "st' = st\<lparr>Pos := Pos st + 1, Line := (if c = newline then Line st + 1 else Line st)\<rparr>"
      by blast+
    from r have "nat (Pos st) < length (Source st)" by linarith
    then have "drop (nat (Pos st)) (Source st) = c # drop (Suc (nat (Pos st))) (Source st)"
      using c by (simp add: Cons_nth_drop_Suc)
    with st' have "newlines_between st st' = (if c = newline then 1 else 0)"
      by (simp add: newlines_between_def)
    with st' show ?thesis by simp
  qed
qed

lemma sint_add_nat:
  fixes w :: "64 word"
  assumes "sint w + int n \<le> 2 ^ 63 - 1"
  shows "sint (w + of_nat n) = sint w + int n"
proof -
  have "w + of_nat n = word_of_int (sint w + int n)" by simp
  then have "sint (w + of_nat n) = signed_take_bit (LENGTH(64) - 1) (sint w + int n)"
    by (simp only: sint_sbintrunc')
  moreover have "- (2 ^ 63) \<le> sint w" using sint_ge [of w] by simp
  ultimately show ?thesis using assms
    by (simp add: signed_take_bit_int_eq_self_iff)
qed

lemma String_returns_nonneg:
  assumes "String s st = Some y"
  shows "0 \<le> Pos st \<or> s = []"
proof (rule ccontr)
  assume "\<not> (0 \<le> Pos st \<or> s = [])"
  then obtain c cs where "Pos st < 0" and "s = c # cs" by (cases s) auto
  with assms show False by (simp add: String_def st_next_def)
qed

lemma String_line:
  assumes "String s st = Some (r, st')"
  shows "Line st' = Line st + of_nat (count_list (take (matched s st) s) newline)"
    and "\<And>v. r = Inr v \<Longrightarrow> matched s st = length s"
proof -
  from assms have "0 \<le> Pos st \<or> s = []" by (rule String_returns_nonneg)
  from String_loop_exact [OF this, of s "Pos st"] assms
  have "(matched s st = length s \<and> (\<exists>v. r = Inr v) \<and>
           Line st' = Line st + of_nat (count_list s newline)) \<or>
        (matched s st \<noteq> length s \<and> (\<exists>e. r = Inl e) \<and>
           Line st' = Line st + of_nat (count_list (take (matched s st) s) newline))"
    by (cases "matched s st = length s") (auto simp: String_def)
  then show "Line st' = Line st + of_nat (count_list (take (matched s st) s) newline)"
    and "\<And>v. r = Inr v \<Longrightarrow> matched s st = length s"
    by auto
qed

lemma line_count_sound:
  assumes "line_count p st y n"
  shows "p st = Some y \<and> Line (snd y) = Line st + of_nat n"
  using assms
proof (induction rule: line_count.induct)
  case (lc_AnyChar st r st')
  then show ?case
    by (auto simp: AnyChar_def split: option.splits prod.splits if_splits dest: st_next_line)
next
  case (lc_Eof st r st')
  then show ?case
    by (auto simp: Eof_def split: option.splits prod.splits if_splits dest: st_next_line)
next
  case (lc_Char c st r st')
  then show ?case
    by (auto simp: Char_p_def split: option.splits prod.splits if_splits dest: st_next_line)
next
  case (lc_OneOf set_p st r st')
  then show ?case
    by (auto simp: OneOf_def split: option.splits prod.splits if_splits dest: st_next_line)
next
  case (lc_NoneOf set_p st r st')
  then show ?case
    by (auto simp: NoneOf_def split: option.splits prod.splits if_splits dest: st_next_line)
next
  case (lc_String_ok s st v st')
  from String_line [OF this] this show ?case by simp
next
  case (lc_String_fail s st e st')
  from String_line(1) [OF this] this show ?case by simp
next
  case (lc_Return x st)
  show ?case by (simp add: Return_def)
next
  case (lc_Fail msg st)
  show ?case by (simp add: Fail_def)
next
  case (lc_Bind_fail p st e s1 n f)
  then show ?case by (simp add: Bind_def)
next
  case (lc_Bind p st x s1 n f y m)
  then show ?case by (simp add: Bind_def add.assoc)
next
  case (lc_Either_ok p1 st x s1 n p2)
  then show ?case by (simp add: Either_def)
next
  case (lc_Either_retry p1 st e s1 n p2 y m)
  then show ?case by (simp add: Either_def add.assoc)
next
  case (lc_Either_fail p1 st e s1 n p2)
  then show ?case by (simp add: Either_def)
next
  case (lc_Try_ok p st x s1 n)
  then show ?case by (simp add: Try_def)
next
  case (lc_Try_fail p st e s1 n)
  then show ?case by (simp add: Try_def)
qed

text \<open>
  Every run of a parser built from the library is counted. The two fixed points again
  by fixed-point induction: each approximation of \<open>Many p\<close> is covered by \<open>Many p\<close>.
\<close>

lemma coversI:
  assumes "\<And>st y. q st = Some y \<Longrightarrow> \<exists>n. line_count p st y n"
  shows "covers q p"
  using assms unfolding covers_def by blast

lemma coversD:
  assumes "covers q p" and "q st = Some y"
  shows "\<exists>n. line_count p st y n"
  using assms unfolding covers_def by blast

lemma covers_AnyChar: "covers AnyChar AnyChar"
  by (rule coversI) (auto intro: lc_AnyChar)

lemma covers_Eof: "covers Eof Eof"
  by (rule coversI) (auto intro: lc_Eof)

lemma covers_Char: "covers (Char_p c) (Char_p c)"
  by (rule coversI) (auto intro: lc_Char)

lemma covers_OneOf: "covers (OneOf set_p) (OneOf set_p)"
  by (rule coversI) (auto intro: lc_OneOf)

lemma covers_NoneOf: "covers (NoneOf set_p) (NoneOf set_p)"
  by (rule coversI) (auto intro: lc_NoneOf)

lemma covers_String: "covers (String s) (String s)"
proof (rule coversI)
  fix st y
  assume run: "String s st = Some y"
  obtain r st' where y: "y = (r, st')" by (cases y)
  show "\<exists>n. line_count (String s) st y n"
  proof (cases r)
    case (Inl e)
    with run y show ?thesis by (auto intro: lc_String_fail)
  next
    case (Inr v)
    with run y show ?thesis by (auto intro: lc_String_ok)
  qed
qed

lemma covers_Return: "covers (Return x) (Return x)"
  by (rule coversI) (auto simp: Return_def intro: lc_Return)

lemma covers_Fail: "covers (Fail msg) (Fail msg)"
  by (rule coversI) (auto simp: Fail_def intro: lc_Fail)

lemma covers_panic: "covers panic p"
  by (rule coversI) (simp add: panic_def)

lemma covers_Return_appendx: "covers (Return_appendx x xs) (Return_appendx x xs)"
  by (cases "appendx x xs") (simp_all add: Return_appendx_def covers_panic covers_Return)

lemma covers_Bind:
  assumes "covers q p" and "\<And>x. covers (g x) (f x)"
  shows "covers (Bind q g) (Bind p f)"
proof (rule coversI)
  fix st y
  assume run: "Bind q g st = Some y"
  then obtain r1 s1 where q: "q st = Some (r1, s1)"
    by (auto simp: Bind_def split: option.splits)
  from coversD [OF assms(1) q] obtain n where n: "line_count p st (r1, s1) n" ..
  show "\<exists>n. line_count (Bind p f) st y n"
  proof (cases r1)
    case (Inl e)
    with run q have "y = (Inl e, s1)" by (simp add: Bind_def)
    with n Inl show ?thesis by (auto intro: lc_Bind_fail)
  next
    case (Inr x)
    with run q have "g x s1 = Some y" by (simp add: Bind_def)
    from coversD [OF assms(2) this] obtain m where "line_count (f x) s1 y m" ..
    with n Inr show ?thesis by (auto intro: lc_Bind)
  qed
qed

lemma Then_Bind: "Then p1 p2 = Bind p1 (\<lambda>x. p2)"
  by (rule ext) (simp add: Then_def Bind_def)

lemma covers_Then:
  assumes "covers q1 p1" and "covers q2 p2"
  shows "covers (Then q1 q2) (Then p1 p2)"
  unfolding Then_Bind using assms by (intro covers_Bind)

lemma covers_Either:
  assumes "covers q1 p1" and "covers q2 p2"
  shows "covers (Either q1 q2) (Either p1 p2)"
proof (rule coversI)
  fix st y
  assume run: "Either q1 q2 st = Some y"
  then obtain r1 s1 where q: "q1 st = Some (r1, s1)"
    by (auto simp: Either_def split: option.splits)
  from coversD [OF assms(1) q] obtain n where n: "line_count p1 st (r1, s1) n" ..
  show "\<exists>n. line_count (Either p1 p2) st y n"
  proof (cases r1)
    case (Inr x)
    with run q have "y = (Inr x, s1)" by (simp add: Either_def)
    with n Inr show ?thesis by (auto intro: lc_Either_ok)
  next
    case (Inl e)
    show ?thesis
    proof (cases "Pos s1 = Pos st")
      case True
      with run q Inl have "q2 s1 = Some y" by (simp add: Either_def)
      from coversD [OF assms(2) this] obtain m where "line_count p2 s1 y m" ..
      with n Inl True show ?thesis by (auto intro: lc_Either_retry)
    next
      case False
      with run q Inl have "y = (Inl e, s1)" by (simp add: Either_def)
      with n Inl False show ?thesis by (auto intro: lc_Either_fail)
    qed
  qed
qed

lemma covers_Try:
  assumes "covers q p"
  shows "covers (Try q) (Try p)"
proof (rule coversI)
  fix st y
  assume run: "Try q st = Some y"
  then obtain r1 s1 where q: "q st = Some (r1, s1)"
    by (auto simp: Try_def split: option.splits)
  from coversD [OF assms q] obtain n where n: "line_count p st (r1, s1) n" ..
  show "\<exists>n. line_count (Try p) st y n"
  proof (cases r1)
    case (Inr x)
    with run q have "y = (Inr x, s1)" by (simp add: Try_def)
    with n Inr show ?thesis by (auto intro: lc_Try_ok)
  next
    case (Inl e)
    with run q have "y = (Inl e, s1\<lparr>Pos := Pos st\<rparr>)" by (simp add: Try_def)
    with n Inl show ?thesis by (auto intro: lc_Try_fail)
  qed
qed

lemma covers_Many:
  assumes "covers p p"
  shows "covers (Many p) (Many p)"
proof (rule coversI)
  fix st y
  assume run: "Many p st = Some y"
  have "covers p p \<longrightarrow> (\<exists>n. line_count (Many p) st y n)"
  proof (rule Many.raw_induct
      [where P = "\<lambda>p st y. covers p p \<longrightarrow> (\<exists>n. line_count (Many p) st y n)", OF _ run])
    fix M :: "Parser \<Rightarrow> Parser" and p st y
    assume IH: "\<And>p st y. M p st = Some y \<Longrightarrow> covers p p \<longrightarrow> (\<exists>n. line_count (Many p) st y n)"
      and step: "Either (Bind p (\<lambda>x. Bind (M p) (Return_appendx x))) (Return (VList [])) st = Some y"
    show "covers p p \<longrightarrow> (\<exists>n. line_count (Many p) st y n)"
    proof
      assume p: "covers p p"
      have unfold: "Many p = Either (Bind p (\<lambda>x. Bind (Many p) (Return_appendx x))) (Return (VList []))"
        by (rule ext) (rule Many.simps)
      from IH p have "covers (M p) (Many p)" by (intro coversI) blast
      with p have "covers (Either (Bind p (\<lambda>x. Bind (M p) (Return_appendx x))) (Return (VList [])))
          (Either (Bind p (\<lambda>x. Bind (Many p) (Return_appendx x))) (Return (VList [])))"
        by (intro covers_Either covers_Bind covers_Return covers_Return_appendx)
      from coversD [OF this step] unfold show "\<exists>n. line_count (Many p) st y n" by simp
    qed
  qed
  with assms show "\<exists>n. line_count (Many p) st y n" by simp
qed

lemma covers_ManyTill:
  assumes "covers p p" and "covers end_p end_p"
  shows "covers (ManyTill p end_p) (ManyTill p end_p)"
proof (rule coversI)
  fix st y
  assume run: "ManyTill p end_p st = Some y"
  have "covers p p \<longrightarrow> covers end_p end_p \<longrightarrow> (\<exists>n. line_count (ManyTill p end_p) st y n)"
  proof (rule ManyTill.raw_induct
      [where P = "\<lambda>p end_p st y. covers p p \<longrightarrow> covers end_p end_p
                     \<longrightarrow> (\<exists>n. line_count (ManyTill p end_p) st y n)", OF _ run])
    fix M :: "Parser \<Rightarrow> Parser \<Rightarrow> Parser" and p end_p st y
    assume IH: "\<And>p end_p st y. M p end_p st = Some y \<Longrightarrow>
        covers p p \<longrightarrow> covers end_p end_p \<longrightarrow> (\<exists>n. line_count (ManyTill p end_p) st y n)"
      and step: "Either (Then (Try end_p) (Return (VList [])))
          (Bind p (\<lambda>x. Bind (M p end_p) (Return_appendx x))) st = Some y"
    show "covers p p \<longrightarrow> covers end_p end_p \<longrightarrow> (\<exists>n. line_count (ManyTill p end_p) st y n)"
    proof (intro impI)
      assume p: "covers p p" and e: "covers end_p end_p"
      have unfold: "ManyTill p end_p = Either (Then (Try end_p) (Return (VList [])))
          (Bind p (\<lambda>x. Bind (ManyTill p end_p) (Return_appendx x)))"
        by (rule ext) (rule ManyTill.simps)
      from IH p e have "covers (M p end_p) (ManyTill p end_p)" by (intro coversI) blast
      with p e have "covers (Either (Then (Try end_p) (Return (VList [])))
            (Bind p (\<lambda>x. Bind (M p end_p) (Return_appendx x))))
          (Either (Then (Try end_p) (Return (VList [])))
            (Bind p (\<lambda>x. Bind (ManyTill p end_p) (Return_appendx x))))"
        by (intro covers_Either covers_Bind covers_Then covers_Try covers_Return
              covers_Return_appendx)
      from coversD [OF this step] unfold show "\<exists>n. line_count (ManyTill p end_p) st y n"
        by simp
    qed
  qed
  with assms show "\<exists>n. line_count (ManyTill p end_p) st y n" by simp
qed

lemma covers_Many1:
  assumes "covers p p"
  shows "covers (Many1 p) (Many1 p)"
  unfolding Many1_def using assms
  by (intro covers_Bind covers_Many covers_Return_appendx)

lemma covers_ToString:
  assumes "covers p p"
  shows "covers (ToString p) (ToString p)"
  unfolding ToString_def
proof (rule covers_Bind [OF assms])
  fix x
  let ?f = "\<lambda>x. case x of VList xs \<Rightarrow>
                      (case bytes_of xs of None \<Rightarrow> panic | Some bs \<Rightarrow> Return (VString bs))
                    | _ \<Rightarrow> panic"
  show "covers (?f x) (?f x)"
    by (simp add: covers_panic covers_Return split: val.split option.split)
qed

lemma covers_Skip:
  assumes "covers p p"
  shows "covers (Skip p) (Skip p)"
  unfolding Skip_def Or_def using assms
  by (intro covers_Either covers_Then covers_Return)

lemma covers_SepBy1:
  assumes "covers p p" and "covers sep sep"
  shows "covers (SepBy1 p sep) (SepBy1 p sep)"
  unfolding SepBy1_def using assms
  by (intro covers_Bind covers_Many covers_Then covers_Return_appendx)

lemma covers_Between:
  assumes "covers p p" and "covers start start" and "covers end_p end_p"
  shows "covers (Between p start end_p) (Between p start end_p)"
  unfolding Between_def Let_def using assms
  by (intro covers_Then covers_Bind covers_Return)

lemma library_parser_covers:
  assumes "library_parser p"
  shows "covers p p"
  using assms
proof (induction rule: library_parser.induct)
  case (lib_Or p1 p2)
  then show ?case by (simp add: Or_def covers_Either)
next
  case (lib_SkipMany p)
  then show ?case by (simp add: SkipMany_def covers_Skip covers_Many)
next
  case (lib_SepBy p sep)
  then show ?case
    by (simp add: SepBy_def Or_def covers_Either covers_SepBy1 covers_Return)
qed (simp_all add: covers_AnyChar covers_Eof covers_Char covers_OneOf
       covers_NoneOf covers_String covers_Return covers_Fail covers_Bind
       covers_Then covers_Either covers_Try covers_ToString covers_Many1
       covers_Many covers_ManyTill covers_Skip covers_Between covers_SepBy1)

text \<open>
  C8, as amended. For every parser built from the library's primitives and combinators,
  every run that returns (a success or a failure) from a cursor with
  \<open>0 \<le> Pos \<le> len(Source)\<close> returns a cursor with \<open>0 \<le> Pos \<le> len(Source)\<close> over the same
  source. The run is counted by \<open>line_count\<close>, and for each count \<open>n\<close> of it the final line
  counter is the initial one plus \<open>n\<close>, in 64-bit arithmetic; so the line counter, read as
  a signed integer, has not decreased when the initial line plus \<open>n\<close> is at most
  \<open>2\<^sup>6\<^sup>3 - 1\<close>.
\<close>

theorem cursor_invariant:
  assumes "library_parser p"
    and "0 \<le> Pos st" and "Pos st \<le> int (length (Source st))"
    and "p st = Some (r, st')"
  shows "0 \<le> Pos st' \<and> Pos st' \<le> int (length (Source st')) \<and> Source st' = Source st \<and>
         (\<exists>n. line_count p st (r, st') n) \<and>
         (\<forall>n. line_count p st (r, st') n \<longrightarrow>
            Line st' = Line st + of_nat n \<and>
            (sint (Line st) + int n \<le> 2 ^ 63 - 1 \<longrightarrow> sint (Line st) \<le> sint (Line st')))"
proof (intro conjI allI impI)
  from assms(2,3) have "in_bounds st" by (simp add: in_bounds_def)
  from preservingD [OF library_parser_preserving [OF assms(1)] this assms(4)]
  show "0 \<le> Pos st'" and "Pos st' \<le> int (length (Source st'))" and "Source st' = Source st"
    by (auto simp: follows_def in_bounds_def)
  from coversD [OF library_parser_covers [OF assms(1)] assms(4)]
  show "\<exists>n. line_count p st (r, st') n" .
next
  fix n
  assume "line_count p st (r, st') n"
  from line_count_sound [OF this] show eq: "Line st' = Line st + of_nat n" by simp
  assume "sint (Line st) + int n \<le> 2 ^ 63 - 1"
  from sint_add_nat [OF this] eq show "sint (Line st) \<le> sint (Line st')" by simp
qed

theorem cursor_invariant_witness:
  "Either (Try (String [newline, CHR ''x''])) AnyChar
       \<lparr>Source = [newline, CHR ''y''], Pos = 0, Line = 1\<rparr>
     = Some (Inr (VByte newline), \<lparr>Source = [newline, CHR ''y''], Pos = 1, Line = 3\<rparr>) \<and>
   line_count (Either (Try (String [newline, CHR ''x''])) AnyChar)
       \<lparr>Source = [newline, CHR ''y''], Pos = 0, Line = 1\<rparr>
       (Inr (VByte newline), \<lparr>Source = [newline, CHR ''y''], Pos = 1, Line = 3\<rparr>) (1 + 1) \<and>
   0 \<le> Pos \<lparr>Source = [newline, CHR ''y''], Pos = 1, Line = 3\<rparr> \<and>
   Pos \<lparr>Source = [newline, CHR ''y''], Pos = 1, Line = 3\<rparr>
     \<le> int (length (Source \<lparr>Source = [newline, CHR ''y''], Pos = 1, Line = 3\<rparr>)) \<and>
   sint (Line \<lparr>Source = [newline, CHR ''y''], Pos = 0, Line = 1\<rparr>)
     \<le> sint (Line \<lparr>Source = [newline, CHR ''y''], Pos = 1, Line = 3\<rparr>)"
proof -
  let ?s = "[newline, CHR ''x'']"
  let ?p = "Either (Try (String ?s)) AnyChar"
  let ?st = "\<lparr>Source = [newline, CHR ''y''], Pos = 0, Line = 1\<rparr>"
  let ?s1 = "\<lparr>Source = [newline, CHR ''y''], Pos = 0, Line = 2\<rparr>"
  let ?st' = "\<lparr>Source = [newline, CHR ''y''], Pos = 1, Line = 3\<rparr>"
  let ?e = "ParseErr (Sprintf (''Expected '%s'' @ [CHR 0x27]) [ArgString ?s]) 2"
  have lib: "library_parser ?p"
    by (intro library_parser.intros)
  have run: "?p ?st = Some (Inr (VByte newline), ?st')"
    by code_simp
  have fails: "String ?s ?st = Some (Inl ?e, ?s1)"
    by code_simp
  have reads: "AnyChar ?s1 = Some (Inr (VByte newline), ?st')"
    by code_simp
  have n1: "count_list (take (matched ?s ?st) ?s) newline = 1"
    by (simp add: matched_def newline_def)
  have n2: "newlines_between ?s1 ?st' = 1"
    by (simp add: newlines_between_def newline_def)
  have reset: "?s1\<lparr>Pos := Pos ?st\<rparr> = ?s1" by simp
  from lc_Try_fail [OF lc_String_fail [OF fails]]
  have first: "line_count (Try (String ?s)) ?st (Inl ?e, ?s1) 1"
    unfolding n1 reset .
  from lc_AnyChar [OF reads]
  have second: "line_count AnyChar ?s1 (Inr (VByte newline), ?st') 1"
    unfolding n2 .
  have count: "line_count ?p ?st (Inr (VByte newline), ?st') (1 + 1)"
    by (rule lc_Either_retry [OF first _ second]) simp
  have b: "0 \<le> Pos ?st" "Pos ?st \<le> int (length (Source ?st))" by simp_all
  note inv = cursor_invariant [OF lib b run]
  from inv have "0 \<le> Pos ?st'" and "Pos ?st' \<le> int (length (Source ?st'))" by blast+
  moreover from inv count
  have "sint (Line ?st) + int (1 + 1) \<le> 2 ^ 63 - 1 \<longrightarrow> sint (Line ?st) \<le> sint (Line ?st')"
    by blast
  then have "sint (Line ?st) \<le> sint (Line ?st')" by simp
  ultimately show ?thesis using run count by blast
qed

text \<open>
  C8 as stated fails: \<open>AnyChar\<close> on a newline byte, from the cursor at position 0 whose
  line counter is \<open>2\<^sup>6\<^sup>3 - 1\<close>, returns the cursor at position 1 with the line counter
  \<open>- 2\<^sup>6\<^sup>3\<close>.
\<close>

theorem line_wraps_counterexample:
  "library_parser AnyChar \<and>
   0 \<le> Pos \<lparr>Source = [newline], Pos = 0, Line = 0x7FFFFFFFFFFFFFFF\<rparr> \<and>
   Pos \<lparr>Source = [newline], Pos = 0, Line = 0x7FFFFFFFFFFFFFFF\<rparr>
     \<le> int (length (Source \<lparr>Source = [newline], Pos = 0, Line = 0x7FFFFFFFFFFFFFFF\<rparr>)) \<and>
   AnyChar \<lparr>Source = [newline], Pos = 0, Line = 0x7FFFFFFFFFFFFFFF\<rparr>
     = Some (Inr (VByte newline), \<lparr>Source = [newline], Pos = 1, Line = 0x8000000000000000\<rparr>) \<and>
   sint (Line \<lparr>Source = [newline], Pos = 1, Line = 0x8000000000000000\<rparr>)
     < sint (Line \<lparr>Source = [newline], Pos = 0, Line = 0x7FFFFFFFFFFFFFFF\<rparr>) \<and>
   sint (Line \<lparr>Source = [newline], Pos = 0, Line = 0x7FFFFFFFFFFFFFFF\<rparr>) = 2 ^ 63 - 1 \<and>
   sint (Line \<lparr>Source = [newline], Pos = 1, Line = 0x8000000000000000\<rparr>) = - (2 ^ 63)"
proof -
  have "AnyChar \<lparr>Source = [newline], Pos = 0, Line = 0x7FFFFFFFFFFFFFFF\<rparr>
     = Some (Inr (VByte newline), \<lparr>Source = [newline], Pos = 1, Line = 0x8000000000000000\<rparr>)"
    by (simp add: AnyChar_def st_next_def)
  then show ?thesis by (simp add: lib_AnyChar)
qed

end
